(* ===== verification/Koil_Prelude.thy ===== *)
theory Koil_Prelude
  imports Complex_Main "HOL-Library.AList"
begin

section \<open>Prelude: Python values, strings, and runs of step functions\<close>

text \<open>
  Shared material of the development: the Python values that cross koil's bridges, the
  string operations the source uses on environment variables and function names, and the
  generic lemmas on runs of step functions. Durations are Python floats in the source;
  the model takes them as rationals (exact arithmetic, no NaN and no infinities).
\<close>

type_synonym time = rat

text \<open>
  The collections the component proofs draw on: \<open>koil_simps\<close> holds the equations that
  evaluate operations, \<open>koil_frame\<close> the facts that say what an operation leaves alone.
\<close>

named_theorems koil_simps
named_theorems koil_frame

subsection \<open>Values\<close>

text \<open>
  \<open>PyKoil\<close>, \<open>PyLoop\<close> and \<open>PyEvent\<close> are references to a \<open>Koil\<close>, an event loop and a
  thread-safe event. \<open>PyObj n b\<close> is any other object: its identity and what its
  truth test gives (\<open>None\<close>: the test raises).
\<close>

datatype pyval =
    PyNone
  | PyBool bool
  | PyInt int
  | PyStr string
  | PyKoil nat
  | PyLoop nat
  | PyEvent nat
  | PyObj nat "bool option"

fun truth :: "pyval \<Rightarrow> bool option" where
  "truth PyNone = Some False"
| "truth (PyBool b) = Some b"
| "truth (PyInt i) = Some (i \<noteq> 0)"
| "truth (PyStr s) = Some (s \<noteq> [])"
| "truth (PyKoil k) = Some True"
| "truth (PyLoop l) = Some True"
| "truth (PyEvent e) = Some True"
| "truth (PyObj n b) = b"

subsection \<open>Strings\<close>

text \<open>
  \<open>str.strip\<close>, \<open>str.lower\<close> and \<open>str.rpartition\<close>, on ASCII: a \<open>char\<close> is a byte, and the
  characters beyond ASCII that Python also folds or strips are left alone.
\<close>

definition py_space :: "char \<Rightarrow> bool" where
  "py_space c = (let n = (of_char c :: nat) in (9 \<le> n \<and> n \<le> 13) \<or> (28 \<le> n \<and> n \<le> 32))"

definition py_strip :: "string \<Rightarrow> string" where
  "py_strip s = rev (dropWhile py_space (rev (dropWhile py_space s)))"

definition py_lower_char :: "char \<Rightarrow> char" where
  "py_lower_char c =
     (let n = (of_char c :: nat) in if 65 \<le> n \<and> n \<le> 90 then char_of (n + 32) else c)"

definition py_lower :: "string \<Rightarrow> string" where
  "py_lower s = map py_lower_char s"

text \<open>
  \<open>s.rpartition(sep)[2]\<close>: what follows the last occurrence of \<open>sep\<close>, or all of \<open>s\<close>
  when there is none.
\<close>

fun after_last :: "string \<Rightarrow> string \<Rightarrow> string option" where
  "after_last sep [] = None"
| "after_last sep (c # cs) =
     (case after_last sep cs of
        Some t \<Rightarrow> Some t
      | None \<Rightarrow>
          if take (length sep) (c # cs) = sep then Some (drop (length sep) (c # cs)) else None)"

definition py_rpartition_tail :: "string \<Rightarrow> string \<Rightarrow> string" where
  "py_rpartition_tail sep s = (case after_last sep s of None \<Rightarrow> s | Some t \<Rightarrow> t)"

subsection \<open>Association lists\<close>

lemma map_of_filter_fst: "map_of (filter (P \<circ> fst) xs) = map_of xs |` {k. P k}"
  by (induction xs) (auto simp: restrict_map_def fun_eq_iff)

lemma distinct_fst_filter: "distinct (map fst xs) \<Longrightarrow> distinct (map fst (filter P xs))"
  by (rule distinct_map_filter)

lemma filter_eq_single: "distinct xs \<Longrightarrow> x \<in> set xs \<Longrightarrow> filter (\<lambda>y. y = x) xs = [x]"
  by (induction xs) (auto simp: filter_empty_conv)

subsection \<open>Runs of a step function\<close>

text \<open>
  A component that reacts to events is a function \<open>step e s\<close>; a run over a list of
  events is \<open>fold step es s\<close>. The two locales say once what the components use: an
  invariant kept by every step is kept by every run, and what no step changes no run
  changes.
\<close>

locale step_invariant =
  fixes step :: "'e \<Rightarrow> 's \<Rightarrow> 's"
    and good :: "'s \<Rightarrow> bool"
  assumes step_good: "good s \<Longrightarrow> good (step e s)"
begin

lemma run_good: "good s \<Longrightarrow> good (fold step es s)"
  by (induction es arbitrary: s) (simp_all add: step_good)

end

locale step_constant =
  fixes step :: "'e \<Rightarrow> 's \<Rightarrow> 's"
    and obs :: "'s \<Rightarrow> 'o"
  assumes step_obs: "obs (step e s) = obs s"
begin

lemma run_obs: "obs (fold step es s) = obs s"
  by (induction es arbitrary: s) (simp_all add: step_obs)

end

text \<open>
  A component whose events may be refused is a function \<open>next e s\<close> into options; \<open>reach\<close> holds
  the states some sequence of accepted events leads to.
\<close>

inductive reach :: "('e \<Rightarrow> 's \<Rightarrow> 's option) \<Rightarrow> 's \<Rightarrow> 's \<Rightarrow> bool" for step s0 where
  reach_init: "reach step s0 s0"
| reach_step: "reach step s0 s \<Longrightarrow> step e s = Some s' \<Longrightarrow> reach step s0 s'"

locale guarded_invariant =
  fixes step :: "'e \<Rightarrow> 's \<Rightarrow> 's option"
    and good :: "'s \<Rightarrow> bool"
  assumes guarded_step_good: "good s \<Longrightarrow> step e s = Some s' \<Longrightarrow> good s'"
begin

lemma reach_good: "reach step s0 s \<Longrightarrow> good s0 \<Longrightarrow> good s"
  by (induction rule: reach.induct) (auto intro: guarded_step_good)

end

text \<open>A run over a given list of events, and that it stays within the reachable states.\<close>

fun grun :: "('e \<Rightarrow> 's \<Rightarrow> 's option) \<Rightarrow> 'e list \<Rightarrow> 's \<Rightarrow> 's option" where
  "grun step [] s = Some s"
| "grun step (e # es) s = (case step e s of None \<Rightarrow> None | Some s' \<Rightarrow> grun step es s')"

lemma grun_reach: "reach step s0 s \<Longrightarrow> grun step es s = Some s' \<Longrightarrow> reach step s0 s'"
  by (induction es arbitrary: s) (auto intro: reach.intros split: option.splits)

lemma grun_append: "grun step es s = Some s' \<Longrightarrow> grun step (es @ fs) s = grun step fs s'"
  by (induction es arbitrary: s) (auto split: option.splits)

end
