(* ===== verification/Koil_Errors.thy ===== *)
theory Koil_Errors
  imports Koil_Prelude
begin

section \<open>Exceptions (koil/errors.py)\<close>

text \<open>
  The exception classes of \<open>koil/errors.py\<close> with the builtin and standard library classes
  the source raises or catches, their bases, and exception objects: class, message,
  traceback and chained exceptions. An \<open>except\<close> clause is a list of classes.
\<close>

subsection \<open>Classes\<close>

text \<open>
  \<open>CancelledError\<close> is koil's own class; the ones of \<open>asyncio\<close> and
  \<open>concurrent.futures\<close> are \<open>AsyncioCancelledError\<close> and \<open>FuturesCancelledError\<close>, which
  have been different classes since Python 3.8. \<open>UserError n c\<close> is a class \<open>n\<close> that user
  code derives from \<open>c\<close>.
\<close>

datatype exn_class =
    KoilError
  | KoilStopIteration
  | ContextError
  | ThreadCancelledError
  | ProcessCancelledError
  | CancelledError
  | KoilTimeoutError
  | BaseExn
  | ExceptionExn
  | OSError
  | TimeoutError
  | AsyncioCancelledError
  | FuturesError
  | FuturesCancelledError
  | KeyboardInterrupt
  | GeneratorExit
  | StopIteration
  | StopAsyncIteration
  | RuntimeError
  | NotImplementedError
  | TypeError
  | ValueError
  | AttributeError
  | AssertionError
  | UserError string exn_class

fun bases :: "exn_class \<Rightarrow> exn_class list" where
  "bases KoilError = [ExceptionExn]"
| "bases KoilStopIteration = [ExceptionExn]"
| "bases ContextError = [KoilError]"
| "bases ThreadCancelledError = [KoilError]"
| "bases ProcessCancelledError = [KoilError]"
| "bases CancelledError = [KoilError]"
| "bases KoilTimeoutError = [KoilError, TimeoutError]"
| "bases BaseExn = []"
| "bases ExceptionExn = [BaseExn]"
| "bases OSError = [ExceptionExn]"
| "bases TimeoutError = [OSError]"
| "bases AsyncioCancelledError = [BaseExn]"
| "bases FuturesError = [ExceptionExn]"
| "bases FuturesCancelledError = [FuturesError]"
| "bases KeyboardInterrupt = [BaseExn]"
| "bases GeneratorExit = [BaseExn]"
| "bases StopIteration = [ExceptionExn]"
| "bases StopAsyncIteration = [ExceptionExn]"
| "bases RuntimeError = [ExceptionExn]"
| "bases NotImplementedError = [RuntimeError]"
| "bases TypeError = [ExceptionExn]"
| "bases ValueError = [ExceptionExn]"
| "bases AttributeError = [ExceptionExn]"
| "bases AssertionError = [ExceptionExn]"
| "bases (UserError n c) = [c]"

text \<open>How far a class is from \<open>BaseException\<close>, at most; a class ranks above its bases.\<close>

fun class_rank :: "exn_class \<Rightarrow> nat" where
  "class_rank (UserError n c) = Suc (class_rank c)"
| "class_rank BaseExn = 0"
| "class_rank ExceptionExn = 1"
| "class_rank KoilTimeoutError = 4"
| "class_rank TimeoutError = 3"
| "class_rank c = (if bases c = [BaseExn] then 1 else if bases c = [ExceptionExn] then 2 else 3)"

lemma class_rank_bases: "b \<in> set (bases c) \<Longrightarrow> class_rank b < class_rank c"
  by (cases c) auto

text \<open>\<open>issubclass(c, d)\<close>.\<close>

function issubclass :: "exn_class \<Rightarrow> exn_class \<Rightarrow> bool" where
  "issubclass c d = (c = d \<or> (\<exists>b \<in> set (bases c). issubclass b d))"
  by pat_completeness auto
termination
  by (relation "measure (\<lambda>(c, d). class_rank c)") (auto simp: class_rank_bases)

declare issubclass.simps [simp del]

subsection \<open>The laws of a class hierarchy\<close>

text \<open>
  What the \<open>except\<close> clauses rely on: a class hierarchy given by its bases is ranked, so
  being a subclass is a partial order, and a handler for a class catches what a handler
  for any of its subclasses catches.
\<close>

locale class_hierarchy =
  fixes direct_bases :: "'c \<Rightarrow> 'c list"
    and rank :: "'c \<Rightarrow> nat"
    and sub :: "'c \<Rightarrow> 'c \<Rightarrow> bool"
  assumes bases_rank: "b \<in> set (direct_bases c) \<Longrightarrow> rank b < rank c"
    and sub_unfold: "sub c d \<longleftrightarrow> c = d \<or> (\<exists>b \<in> set (direct_bases c). sub b d)"
begin

lemma sub_refl: "sub c c"
  using sub_unfold by blast

lemma sub_base: "b \<in> set (direct_bases c) \<Longrightarrow> sub b d \<Longrightarrow> sub c d"
  using sub_unfold by blast

lemma sub_rank: "sub c d \<Longrightarrow> c = d \<or> rank d < rank c"
proof (induction "rank c" arbitrary: c rule: less_induct)
  case less
  show ?case
  proof (cases "c = d")
    case False
    with less.prems obtain b where "b \<in> set (direct_bases c)" and "sub b d"
      using sub_unfold by blast
    with less.hyps bases_rank show ?thesis by (metis order.strict_trans)
  qed simp
qed

lemma sub_antisym: "sub c d \<Longrightarrow> sub d c \<Longrightarrow> c = d"
  using sub_rank by (metis less_asym)

lemma sub_trans: "sub c d \<Longrightarrow> sub d e \<Longrightarrow> sub c e"
proof (induction "rank c" arbitrary: c rule: less_induct)
  case less
  show ?case
  proof (cases "c = d")
    case True
    with less.prems show ?thesis by simp
  next
    case False
    with less.prems obtain b where "b \<in> set (direct_bases c)" and "sub b d"
      using sub_unfold by blast
    with less show ?thesis using bases_rank sub_base by blast
  qed
qed

end

interpretation exn_order: class_hierarchy bases class_rank issubclass
proof unfold_locales
  show "b \<in> set (bases c) \<Longrightarrow> class_rank b < class_rank c" for b c
    by (rule class_rank_bases)
  show "issubclass c d \<longleftrightarrow> c = d \<or> (\<exists>b \<in> set (bases c). issubclass b d)" for c d
    by (rule issubclass.simps)
qed

text \<open>
  Every closed instance of \<^const>\<open>issubclass\<close> is decided by unfolding it along the bases;
  the equations are split by the class on the left, so that the simplifier stops at a
  variable.
\<close>

lemma subclass_unfold [koil_simps]:
  "issubclass KoilError d = (d = KoilError \<or> issubclass ExceptionExn d)"
  "issubclass KoilStopIteration d = (d = KoilStopIteration \<or> issubclass ExceptionExn d)"
  "issubclass ContextError d = (d = ContextError \<or> issubclass KoilError d)"
  "issubclass ThreadCancelledError d = (d = ThreadCancelledError \<or> issubclass KoilError d)"
  "issubclass ProcessCancelledError d = (d = ProcessCancelledError \<or> issubclass KoilError d)"
  "issubclass CancelledError d = (d = CancelledError \<or> issubclass KoilError d)"
  "issubclass KoilTimeoutError d =
     (d = KoilTimeoutError \<or> issubclass KoilError d \<or> issubclass TimeoutError d)"
  "issubclass BaseExn d = (d = BaseExn)"
  "issubclass ExceptionExn d = (d = ExceptionExn \<or> d = BaseExn)"
  "issubclass OSError d = (d = OSError \<or> issubclass ExceptionExn d)"
  "issubclass TimeoutError d = (d = TimeoutError \<or> issubclass OSError d)"
  "issubclass AsyncioCancelledError d = (d = AsyncioCancelledError \<or> d = BaseExn)"
  "issubclass FuturesError d = (d = FuturesError \<or> issubclass ExceptionExn d)"
  "issubclass FuturesCancelledError d = (d = FuturesCancelledError \<or> issubclass FuturesError d)"
  "issubclass KeyboardInterrupt d = (d = KeyboardInterrupt \<or> d = BaseExn)"
  "issubclass GeneratorExit d = (d = GeneratorExit \<or> d = BaseExn)"
  "issubclass StopIteration d = (d = StopIteration \<or> issubclass ExceptionExn d)"
  "issubclass StopAsyncIteration d = (d = StopAsyncIteration \<or> issubclass ExceptionExn d)"
  "issubclass RuntimeError d = (d = RuntimeError \<or> issubclass ExceptionExn d)"
  "issubclass NotImplementedError d = (d = NotImplementedError \<or> issubclass RuntimeError d)"
  "issubclass TypeError d = (d = TypeError \<or> issubclass ExceptionExn d)"
  "issubclass ValueError d = (d = ValueError \<or> issubclass ExceptionExn d)"
  "issubclass AttributeError d = (d = AttributeError \<or> issubclass ExceptionExn d)"
  "issubclass AssertionError d = (d = AssertionError \<or> issubclass ExceptionExn d)"
  "issubclass (UserError n c) d = (d = UserError n c \<or> issubclass c d)"
  by (auto simp: issubclass.simps [of KoilError] issubclass.simps [of KoilStopIteration]
      issubclass.simps [of ContextError] issubclass.simps [of ThreadCancelledError]
      issubclass.simps [of ProcessCancelledError] issubclass.simps [of CancelledError]
      issubclass.simps [of KoilTimeoutError] issubclass.simps [of BaseExn]
      issubclass.simps [of ExceptionExn] issubclass.simps [of OSError]
      issubclass.simps [of TimeoutError] issubclass.simps [of AsyncioCancelledError]
      issubclass.simps [of FuturesError] issubclass.simps [of FuturesCancelledError]
      issubclass.simps [of KeyboardInterrupt] issubclass.simps [of GeneratorExit]
      issubclass.simps [of StopIteration] issubclass.simps [of StopAsyncIteration]
      issubclass.simps [of RuntimeError] issubclass.simps [of NotImplementedError]
      issubclass.simps [of TypeError] issubclass.simps [of ValueError]
      issubclass.simps [of AttributeError] issubclass.simps [of AssertionError]
      issubclass.simps [of "UserError n c"])

lemma subclass_BaseExn [simp]: "issubclass c BaseExn"
  by (induction c) (simp_all add: koil_simps)

subsection \<open>Exception objects\<close>

text \<open>
  A frame is what \<open>koil/tracebacks.py\<close> reads of it: its code's name, its locals and the
  globals of its module. A traceback is the list of its entries, outermost first.
\<close>

record pyframe =
  f_code :: string
  f_locals :: "(string \<times> pyval) list"
  f_globals :: "(string \<times> pyval) list"

record tb_entry =
  tb_frame :: pyframe
  tb_lasti :: int
  tb_lineno :: int

datatype exn =
  Exn (ecls: exn_class) (emsg: string) (etb: "tb_entry list")
    (ecause: "exn option") (econtext: "exn option")

text \<open>An \<open>except\<close> clause for the classes \<open>cs\<close>, and an exception that unwinds a frame.\<close>

definition catches :: "exn_class list \<Rightarrow> exn \<Rightarrow> bool" where
  "catches cs e = list_ex (issubclass (ecls e)) cs"

definition unwind :: "tb_entry \<Rightarrow> exn \<Rightarrow> exn" where
  "unwind t e = Exn (ecls e) (emsg e) (t # etb e) (ecause e) (econtext e)"

text \<open>A new exception raised in a frame, and \<open>raise ... from e\<close>.\<close>

definition new_exn :: "tb_entry \<Rightarrow> exn_class \<Rightarrow> string \<Rightarrow> exn" where
  "new_exn t c m = Exn c m [t] None None"

definition new_exn_from :: "tb_entry \<Rightarrow> exn_class \<Rightarrow> string \<Rightarrow> exn \<Rightarrow> exn" where
  "new_exn_from t c m e = Exn c m [t] (Some e) (Some e)"

text \<open>An entry for a function of a module, with or without the local \<open>__tracebackhide__\<close>.\<close>

definition entry :: "string \<Rightarrow> string \<Rightarrow> bool \<Rightarrow> int \<Rightarrow> tb_entry" where
  "entry m f hide n =
     \<lparr>tb_frame = \<lparr>f_code = f,
        f_locals = (if hide then [(''__tracebackhide__'', PyBool True)] else []),
        f_globals = [(''__name__'', PyStr m)]\<rparr>,
      tb_lasti = 0, tb_lineno = n\<rparr>"

lemma ecls_unwind [simp]: "ecls (unwind t e) = ecls e" "emsg (unwind t e) = emsg e"
  "etb (unwind t e) = t # etb e"
  by (simp_all add: unwind_def)

lemma ecls_new_exn [simp]: "ecls (new_exn t c m) = c" "emsg (new_exn t c m) = m"
  "etb (new_exn t c m) = [t]" "ecls (new_exn_from t c m e) = c"
  by (simp_all add: new_exn_def new_exn_from_def)

lemma catches_unwind [simp]: "catches cs (unwind t e) = catches cs e"
  by (simp add: catches_def)

lemma catches_subclass: "catches cs e \<Longrightarrow> issubclass c (ecls e) \<Longrightarrow> ecls e' = c \<Longrightarrow> catches cs e'"
  unfolding catches_def by (auto simp: list_ex_iff intro: exn_order.sub_trans)

end
