(* ===== verification/Koil_Context.thy ===== *)
theory Koil_Context
  imports Koil_Errors
begin

section \<open>Context variables and thread-safe events (koil/context.py)\<close>

text \<open>
  The ambient state of koil: contexts of \<open>contextvars\<close>, the four context variables of
  \<open>koil/context.py\<close>, event loops as far as other threads see them (closed or not, the
  queue of \<open>call_soon_threadsafe\<close>, timers), the thread-safe cancel event, and
  \<open>check_cancelled\<close>. The record \<open>rt\<close> holds the objects every thread of the process shares;
  \<open>caller\<close> holds what belongs to the running frame alone: its context and the loop that
  runs it, if one does.
\<close>

subsection \<open>Contexts\<close>

datatype ctxvar =
    global_koil
  | global_koil_loop
  | current_koil
  | current_cancel_event
  | UserVar string

type_synonym ctx = "(ctxvar \<times> pyval) list"

text \<open>
  A \<open>contextvars.Context\<close> is a mapping whose iteration order is fixed but unspecified: an
  association list with distinct keys. \<open>copy_context()\<close> is the list itself, since a list
  is a value.
\<close>

definition ctx_wf :: "ctx \<Rightarrow> bool" where
  "ctx_wf c = distinct (map fst c)"

definition ctx_set :: "ctxvar \<Rightarrow> pyval \<Rightarrow> ctx \<Rightarrow> ctx" where
  "ctx_set v x c = AList.update v x c"

text \<open>\<open>var.get()\<close> of a variable whose default is \<open>None\<close>, as all of koil's are.\<close>

definition ctx_get :: "ctx \<Rightarrow> ctxvar \<Rightarrow> pyval" where
  "ctx_get c v = (case map_of c v of None \<Rightarrow> PyNone | Some x \<Rightarrow> x)"

text \<open>\<open>for var, value in items: var.set(value)\<close>.\<close>

definition set_items :: "(ctxvar \<times> pyval) list \<Rightarrow> ctx \<Rightarrow> ctx" where
  "set_items items c = fold (\<lambda>(v, x). ctx_set v x) items c"

subsection \<open>The laws of a context\<close>

text \<open>
  The bridges copy contexts by setting every item of one into another. What they rely on
  is stated once: reading a variable after setting it, and that the items of a context are
  what can be read from it.
\<close>

locale context_store =
  fixes read :: "'c \<Rightarrow> 'v \<Rightarrow> 'x option"
    and put :: "'v \<Rightarrow> 'x \<Rightarrow> 'c \<Rightarrow> 'c"
    and items :: "'c \<Rightarrow> ('v \<times> 'x) list"
    and wf :: "'c \<Rightarrow> bool"
  assumes read_put: "read (put v x c) = (read c)(v \<mapsto> x)"
    and wf_put: "wf c \<Longrightarrow> wf (put v x c)"
    and distinct_items: "wf c \<Longrightarrow> distinct (map fst (items c))"
    and read_items: "wf c \<Longrightarrow> map_of (items c) = read c"
begin

lemma wf_put_all: "wf c \<Longrightarrow> wf (fold (\<lambda>(v, x). put v x) xs c)"
  by (induction xs arbitrary: c) (auto simp: wf_put split: prod.splits)

lemma read_put_all:
  "distinct (map fst xs) \<Longrightarrow> read (fold (\<lambda>(v, x). put v x) xs c) = read c ++ map_of xs"
proof (induction xs arbitrary: c)
  case (Cons a xs)
  obtain v x where a: "a = (v, x)" by fastforce
  with Cons.prems have "map_of xs v = None"
    by (simp add: map_of_eq_None_iff)
  with Cons a show ?case
    by (auto simp: read_put map_add_def fun_eq_iff split: option.splits)
qed simp

text \<open>Copying one context into another: the copied values win, the rest stays.\<close>

lemma read_copy: "wf d \<Longrightarrow> read (fold (\<lambda>(v, x). put v x) (items d) c) = read c ++ read d"
  by (simp add: read_put_all distinct_items read_items)

lemma read_copy_filter:
  assumes "wf d"
  shows "read (fold (\<lambda>(v, x). put v x) (filter (P \<circ> fst) (items d)) c)
    = read c ++ (read d |` {v. P v})"
proof -
  have "distinct (map fst (filter (P \<circ> fst) (items d)))"
    using distinct_items [OF assms] by (simp add: distinct_map_filter)
  moreover have "map_of (filter (P \<circ> fst) (items d)) = read d |` {v. P v}"
    by (simp add: map_of_filter_fst read_items [OF assms])
  ultimately show ?thesis by (simp add: read_put_all)
qed

end

interpretation ctx: context_store map_of ctx_set "\<lambda>c. c" ctx_wf
proof unfold_locales
  show "map_of (ctx_set v x c) = (map_of c)(v \<mapsto> x)" for v x c
    by (simp add: ctx_set_def update_conv')
  show "ctx_wf c \<Longrightarrow> ctx_wf (ctx_set v x c)" for c v x
    by (simp add: ctx_wf_def ctx_set_def distinct_update)
qed (simp_all add: ctx_wf_def)

lemmas ctx_set_simps [simp] = ctx.read_put ctx.wf_put

lemma set_items_wf [simp]: "ctx_wf c \<Longrightarrow> ctx_wf (set_items xs c)"
  by (simp add: set_items_def ctx.wf_put_all)

lemma map_of_set_items: "ctx_wf d \<Longrightarrow> map_of (set_items d c) = map_of c ++ map_of d"
  by (simp add: set_items_def ctx.read_copy)

lemma ctx_get_set [simp]: "ctx_get (ctx_set v x c) w = (if v = w then x else ctx_get c w)"
  by (simp add: ctx_get_def)

lemma ctx_get_set_items:
  "ctx_wf d \<Longrightarrow>
   ctx_get (set_items d c) v = (if v \<in> fst ` set d then ctx_get d v else ctx_get c v)"
  by (cases "map_of d v")
    (auto simp: ctx_get_def map_of_set_items map_add_def map_of_eq_None_iff [THEN iffD1]
      dest: map_of_SomeD intro: rev_image_eqI)

subsection \<open>The objects the threads share\<close>

text \<open>
  \<open>call_soon_threadsafe\<close> appends a callback to the loop's queue; the loop runs the queue in
  order. The callbacks are the ones koil posts: setting or clearing an event, stopping the
  loop, starting a timer, and starting the task of a submitted coroutine.
\<close>

datatype callback =
    CbSetEvent nat
  | CbClearEvent nat
  | CbStop
  | CbCallLater time nat
  | CbSubmit nat

datatype loop_kind = UvLoop | DefaultLoop | SelectorLoop

record loop_st =
  l_kind :: loop_kind
  l_closed :: bool
  l_stopping :: bool
  l_ready :: "callback list"
  l_timers :: "(time \<times> nat) list"

text \<open>The thread that \<open>get_threaded_loop\<close> starts for a loop; it has the number of its loop.\<close>

record thread_st =
  th_name :: string
  th_do_not_trace :: bool
  th_is_daemon_thread :: bool
  th_daemon :: bool
  th_alive :: bool

record tsevent =
  ev_loop :: nat
  ev_flag :: bool

text \<open>
  The attributes of a \<open>Koil\<close> (\<open>koil/loop.py\<close>); the last three are the ones \<open>__enter__\<close> reads
  with \<open>getattr\<close> to name the thread.
\<close>

record koil =
  k_loop :: "nat option"
  k_loop_thread :: "nat option"
  k_running :: bool
  k_sync_in_async :: bool
  k_uvify :: bool
  k_cancel_timeout :: "time option"
  k_rewrite_tracebacks :: bool
  k_shutdown_join_timeout :: "time option"
  k_name :: "string option"
  k_creating_instance :: bool
  k_class :: string

record rt =
  rt_loops :: "nat \<Rightarrow> loop_st"
  rt_threads :: "nat \<Rightarrow> thread_st"
  rt_nloops :: nat
  rt_events :: "nat \<Rightarrow> tsevent"
  rt_nevents :: nat
  rt_koils :: "nat \<Rightarrow> koil"
  rt_nkoils :: nat
  rt_fired :: "nat \<Rightarrow> bool"
  rt_ntimers :: nat
  rt_now :: time
  rt_environ :: "string \<Rightarrow> string option"
  rt_uvloop :: bool
  rt_os_nt :: bool
  rt_rewrite_tracebacks :: bool

record caller =
  c_vars :: ctx
  c_running :: "nat option"

text \<open>The ambient koil, loop and cancel event of a frame.\<close>

definition ambient_koil :: "caller \<Rightarrow> nat option" where
  "ambient_koil c = (case ctx_get (c_vars c) global_koil of PyKoil k \<Rightarrow> Some k | _ \<Rightarrow> None)"

definition ambient_loop :: "caller \<Rightarrow> nat option" where
  "ambient_loop c = (case ctx_get (c_vars c) global_koil_loop of PyLoop l \<Rightarrow> Some l | _ \<Rightarrow> None)"

definition ambient_event :: "caller \<Rightarrow> nat option" where
  "ambient_event c =
     (case ctx_get (c_vars c) current_cancel_event of PyEvent e \<Rightarrow> Some e | _ \<Rightarrow> None)"

definition set_var :: "ctxvar \<Rightarrow> pyval \<Rightarrow> caller \<Rightarrow> caller" where
  "set_var v x c = c\<lparr>c_vars := ctx_set v x (c_vars c)\<rparr>"

definition py_ref :: "(nat \<Rightarrow> pyval) \<Rightarrow> nat option \<Rightarrow> pyval" where
  "py_ref f r = (case r of None \<Rightarrow> PyNone | Some n \<Rightarrow> f n)"

lemma ambient_set_var [simp]:
  "ambient_koil (set_var v x c) =
     (if v = global_koil then (case x of PyKoil k \<Rightarrow> Some k | _ \<Rightarrow> None) else ambient_koil c)"
  "ambient_loop (set_var v x c) =
     (if v = global_koil_loop then (case x of PyLoop l \<Rightarrow> Some l | _ \<Rightarrow> None) else ambient_loop c)"
  "ambient_event (set_var v x c) =
     (if v = current_cancel_event then (case x of PyEvent e \<Rightarrow> Some e | _ \<Rightarrow> None)
      else ambient_event c)"
  "c_running (set_var v x c) = c_running c"
  "c_vars (set_var v x c) = ctx_set v x (c_vars c)"
  by (simp_all add: ambient_koil_def ambient_loop_def ambient_event_def set_var_def)

subsection \<open>The thread-safe queue of a loop\<close>

definition upd_loop :: "nat \<Rightarrow> (loop_st \<Rightarrow> loop_st) \<Rightarrow> 'z rt_scheme \<Rightarrow> 'z rt_scheme" where
  "upd_loop l f s = s\<lparr>rt_loops := (rt_loops s)(l := f (rt_loops s l))\<rparr>"

definition call_soon_threadsafe ::
    "tb_entry \<Rightarrow> nat \<Rightarrow> callback \<Rightarrow> 'z rt_scheme \<Rightarrow> exn + 'z rt_scheme" where
  "call_soon_threadsafe t l cb s =
     (if l_closed (rt_loops s l)
      then Inl (unwind t (new_exn (entry ''asyncio.base_events'' ''_check_closed'' False 0)
                  RuntimeError ''Event loop is closed''))
      else Inr (upd_loop l (\<lambda>x. x\<lparr>l_ready := l_ready x @ [cb]\<rparr>) s))"

text \<open>
  What the loop does with a callback. Starting a submitted task is the business of
  \<open>Koil_Future\<close>, which extends the state; here it leaves the state alone.
\<close>

fun exec_callback :: "nat \<Rightarrow> callback \<Rightarrow> 'z rt_scheme \<Rightarrow> 'z rt_scheme" where
  "exec_callback l (CbSetEvent e) s =
     s\<lparr>rt_events := (rt_events s)(e := (rt_events s e)\<lparr>ev_flag := True\<rparr>)\<rparr>"
| "exec_callback l (CbClearEvent e) s =
     s\<lparr>rt_events := (rt_events s)(e := (rt_events s e)\<lparr>ev_flag := False\<rparr>)\<rparr>"
| "exec_callback l CbStop s = upd_loop l (\<lambda>x. x\<lparr>l_stopping := True\<rparr>) s"
| "exec_callback l (CbCallLater d t) s =
     upd_loop l (\<lambda>x. x\<lparr>l_timers := l_timers x @ [(rt_now s + d, t)]\<rparr>) s"
| "exec_callback l (CbSubmit f) s = s"

text \<open>One turn of the loop: it takes the oldest callback and runs it; a closed loop does not turn.\<close>

definition run_ready :: "nat \<Rightarrow> 'z rt_scheme \<Rightarrow> 'z rt_scheme" where
  "run_ready l s =
     (if l_closed (rt_loops s l) then s
      else case l_ready (rt_loops s l) of
        [] \<Rightarrow> s
      | cb # cbs \<Rightarrow> exec_callback l cb (upd_loop l (\<lambda>x. x\<lparr>l_ready := cbs\<rparr>) s))"

subsection \<open>KoilThreadSafeEvent\<close>

definition event_init :: "nat \<Rightarrow> 'z rt_scheme \<Rightarrow> nat \<times> 'z rt_scheme" where
  "event_init l s =
     (let e = rt_nevents s in
      (e, s\<lparr>rt_events := (rt_events s)(e := \<lparr>ev_loop = l, ev_flag = False\<rparr>),
            rt_nevents := Suc e\<rparr>))"

definition event_set :: "nat \<Rightarrow> 'z rt_scheme \<Rightarrow> exn + 'z rt_scheme" where
  "event_set e s =
     call_soon_threadsafe (entry ''koil.context'' ''set'' False 55)
       (ev_loop (rt_events s e)) (CbSetEvent e) s"

definition event_clear :: "nat \<Rightarrow> 'z rt_scheme \<Rightarrow> exn + 'z rt_scheme" where
  "event_clear e s =
     call_soon_threadsafe (entry ''koil.context'' ''clear'' False 59)
       (ev_loop (rt_events s e)) (CbClearEvent e) s"

definition event_is_set :: "nat \<Rightarrow> 'z rt_scheme \<Rightarrow> bool" where
  "event_is_set e s = ev_flag (rt_events s e)"

definition check_cancelled :: "caller \<Rightarrow> 'z rt_scheme \<Rightarrow> exn + unit" where
  "check_cancelled c s =
     (case ambient_event c of
        None \<Rightarrow> Inr ()
      | Some e \<Rightarrow>
          if event_is_set e s
          then Inl (new_exn (entry ''koil.context'' ''check_cancelled'' False 101)
                  ThreadCancelledError ''Task was cancelled'')
          else Inr ())"

subsection \<open>What the queue and the events guarantee\<close>

lemma upd_loop_simps [simp]:
  "rt_loops (upd_loop l f s) = (rt_loops s)(l := f (rt_loops s l))"
  "rt_threads (upd_loop l f s) = rt_threads s" "rt_nloops (upd_loop l f s) = rt_nloops s"
  "rt_events (upd_loop l f s) = rt_events s" "rt_nevents (upd_loop l f s) = rt_nevents s"
  "rt_koils (upd_loop l f s) = rt_koils s" "rt_nkoils (upd_loop l f s) = rt_nkoils s"
  "rt_fired (upd_loop l f s) = rt_fired s" "rt_ntimers (upd_loop l f s) = rt_ntimers s"
  "rt_now (upd_loop l f s) = rt_now s" "rt_environ (upd_loop l f s) = rt_environ s"
  "rt_rewrite_tracebacks (upd_loop l f s) = rt_rewrite_tracebacks s"
  "rt.more (upd_loop l f s) = rt.more s"
  by (simp_all add: upd_loop_def)

lemma call_soon_threadsafe_open [koil_simps]:
  "\<not> l_closed (rt_loops s l) \<Longrightarrow>
   call_soon_threadsafe t l cb s = Inr (upd_loop l (\<lambda>x. x\<lparr>l_ready := l_ready x @ [cb]\<rparr>) s)"
  by (simp add: call_soon_threadsafe_def)

lemma call_soon_threadsafe_InrE:
  assumes "call_soon_threadsafe t l cb s = Inr s'"
  obtains "\<not> l_closed (rt_loops s l)"
    and "s' = upd_loop l (\<lambda>x. x\<lparr>l_ready := l_ready x @ [cb]\<rparr>) s"
  using assms by (auto simp: call_soon_threadsafe_def split: if_splits)

text \<open>
  Between the moment a thread sets an event and the moment the loop has worked its queue
  off, other threads go on posting. \<open>loop_act\<close> is one step of that: a turn of the loop,
  or some thread posting a callback (a post to a closed loop raises and changes nothing).
\<close>

datatype loop_act = Turn | Post callback

fun loop_act_step :: "nat \<Rightarrow> loop_act \<Rightarrow> 'z rt_scheme \<Rightarrow> 'z rt_scheme" where
  "loop_act_step l Turn s = run_ready l s"
| "loop_act_step l (Post cb) s =
     (case call_soon_threadsafe (entry ''client'' ''post'' False 0) l cb s of Inl e \<Rightarrow> s | Inr s' \<Rightarrow> s')"

definition turns :: "loop_act list \<Rightarrow> nat" where
  "turns acts = length (filter (\<lambda>a. a = Turn) acts)"

text \<open>
  The callback that sets the event is among the next \<open>n\<close> of the queue and no later one
  clears the event; and the invariant of the run: that, or the event is set already.
\<close>

fun set_next :: "nat \<Rightarrow> nat \<Rightarrow> callback list \<Rightarrow> bool" where
  "set_next e n [] = False"
| "set_next e 0 (cb # q) = False"
| "set_next e (Suc n) (cb # q) =
     ((cb = CbSetEvent e \<and> CbClearEvent e \<notin> set q) \<or> set_next e n q)"

definition set_within :: "nat \<Rightarrow> nat \<Rightarrow> nat \<Rightarrow> 'z rt_scheme \<Rightarrow> bool" where
  "set_within l e n s \<longleftrightarrow>
     \<not> l_closed (rt_loops s l) \<and>
     ((event_is_set e s \<and> CbClearEvent e \<notin> set (l_ready (rt_loops s l))) \<or>
      set_next e n (l_ready (rt_loops s l)))"

lemma set_next_append: "set_next e n q \<Longrightarrow> cb \<noteq> CbClearEvent e \<Longrightarrow> set_next e n (q @ [cb])"
  by (induction e n q rule: set_next.induct) auto

lemma set_next_last: "set_next e (Suc (length q)) (q @ [CbSetEvent e])"
  by (induction q) auto

lemma set_next_zero [simp]: "\<not> set_next e 0 q"
  by (cases q) auto

lemma exec_callback_ready [simp]:
  "l_ready (rt_loops (exec_callback l cb s) l') = l_ready (rt_loops s l')"
  "l_closed (rt_loops (exec_callback l cb s) l') = l_closed (rt_loops s l')"
  by (cases cb; simp)+

lemma event_is_set_upd_loop [simp]: "event_is_set e (upd_loop l f s) = event_is_set e s"
  by (simp add: event_is_set_def)

lemma event_is_set_exec:
  "event_is_set e (exec_callback l cb s) =
     (if cb = CbSetEvent e then True else if cb = CbClearEvent e then False else event_is_set e s)"
  by (cases cb) (auto simp: event_is_set_def)

lemma set_within_turn: "set_within l e (Suc n) s \<Longrightarrow> set_within l e n (run_ready l s)"
  unfolding set_within_def run_ready_def
  by (auto simp: event_is_set_exec split: list.splits)

lemma set_within_idle_turn: "set_within l e 0 s \<Longrightarrow> set_within l e 0 (run_ready l s)"
  unfolding set_within_def run_ready_def
  by (auto simp: event_is_set_exec split: list.splits)

lemma set_within_post:
  "set_within l e n s \<Longrightarrow> cb \<noteq> CbClearEvent e \<Longrightarrow> set_within l e n (loop_act_step l (Post cb) s)"
  unfolding set_within_def by (auto simp: koil_simps set_next_append)

lemma set_within_run:
  assumes "set_within l e n s" and "Post (CbClearEvent e) \<notin> set acts" and "n \<le> turns acts"
  shows "set_within l e 0 (fold (loop_act_step l) acts s)"
  using assms
proof (induction acts arbitrary: s n)
  case Nil
  then show ?case by (simp add: turns_def)
next
  case (Cons a acts)
  show ?case
  proof (cases a)
    case Turn
    have "set_within l e (n - 1) (run_ready l s)"
      using Cons.prems(1) set_within_turn set_within_idle_turn by (cases n) auto
    moreover have "n - 1 \<le> turns acts"
      using Cons.prems(3) Turn by (simp add: turns_def)
    ultimately show ?thesis using Cons Turn by simp
  next
    case (Post cb)
    with Cons.prems(2) have "cb \<noteq> CbClearEvent e" by auto
    with Cons.prems(1) have "set_within l e n (loop_act_step l a s)"
      unfolding Post by (rule set_within_post)
    moreover have "n \<le> turns acts"
      using Cons.prems(3) Post by (simp add: turns_def)
    ultimately show ?thesis using Cons by simp
  qed
qed

lemma event_set_within:
  assumes "event_set e s = Inr s'"
  shows "set_within (ev_loop (rt_events s e)) e
    (length (l_ready (rt_loops s' (ev_loop (rt_events s e))))) s'"
  using assms unfolding event_set_def
  by (elim call_soon_threadsafe_InrE) (simp add: set_within_def set_next_last)

subsection \<open>Properties\<close>

text \<open>A process before any koil was entered: no loop, no event, no koil.\<close>

definition init_koil :: koil where
  "init_koil =
     \<lparr>k_loop = None, k_loop_thread = None, k_running = False, k_sync_in_async = True,
      k_uvify = True, k_cancel_timeout = Some 2, k_rewrite_tracebacks = True,
      k_shutdown_join_timeout = None, k_name = None, k_creating_instance = False,
      k_class = ''Koil''\<rparr>"

definition init_rt :: rt where
  "init_rt =
     \<lparr>rt_loops = (\<lambda>_. \<lparr>l_kind = DefaultLoop, l_closed = False, l_stopping = False,
                       l_ready = [], l_timers = []\<rparr>),
      rt_threads = (\<lambda>_. \<lparr>th_name = [], th_do_not_trace = False, th_is_daemon_thread = False,
                         th_daemon = False, th_alive = False\<rparr>),
      rt_nloops = 0, rt_events = (\<lambda>_. \<lparr>ev_loop = 0, ev_flag = False\<rparr>), rt_nevents = 0,
      rt_koils = (\<lambda>_. init_koil), rt_nkoils = 0, rt_fired = (\<lambda>_. False), rt_ntimers = 0,
      rt_now = 0, rt_environ = (\<lambda>_. None), rt_uvloop = False, rt_os_nt = False,
      rt_rewrite_tracebacks = True\<rparr>"

definition init_caller :: caller where
  "init_caller = \<lparr>c_vars = [], c_running = None\<rparr>"

text \<open>
  C6: a cancel signal is never lost. Once some thread has set a worker's cancel event, the
  worker's \<open>check_cancelled\<close> raises \<open>ThreadCancelledError\<close> as soon as the loop has worked
  off the queue as long as it was at that moment, whatever other threads post to the loop
  in between (short of clearing this event, which koil never does).
\<close>

theorem cancel_reaches_worker:
  assumes "ambient_event c = Some e" and "event_set e s = Inr s'"
    and "Post (CbClearEvent e) \<notin> set acts"
    and "length (l_ready (rt_loops s' (ev_loop (rt_events s e)))) \<le> turns acts"
  shows "\<exists>x. check_cancelled c (fold (loop_act_step (ev_loop (rt_events s e))) acts s') = Inl x \<and>
    ecls x = ThreadCancelledError"
proof -
  let ?s = "fold (loop_act_step (ev_loop (rt_events s e))) acts s'"
  have "set_within (ev_loop (rt_events s e)) e 0 ?s"
    using event_set_within [OF assms(2)] assms(3,4) by (rule set_within_run)
  then have "event_is_set e ?s" by (simp add: set_within_def)
  with assms(1) show ?thesis by (simp add: check_cancelled_def)
qed

theorem cancel_reaches_worker_witness:
  "\<exists>x. check_cancelled \<lparr>c_vars = [(current_cancel_event, PyEvent 0)], c_running = None\<rparr>
     (fold (loop_act_step 0) [Post (CbSetEvent 5), Turn, Post CbStop, Turn]
       (upd_loop 0 (\<lambda>x. x\<lparr>l_ready := [CbStop, CbSetEvent 0]\<rparr>) init_rt)) = Inl x \<and>
     ecls x = ThreadCancelledError"
proof -
  let ?s = "upd_loop 0 (\<lambda>x. x\<lparr>l_ready := [CbStop]\<rparr>) init_rt"
  let ?s' = "upd_loop 0 (\<lambda>x. x\<lparr>l_ready := [CbStop, CbSetEvent 0]\<rparr>) init_rt"
  let ?c = "\<lparr>c_vars = [(current_cancel_event, PyEvent 0)], c_running = None\<rparr>"
  have ev: "ev_loop (rt_events ?s 0) = 0" by (simp add: init_rt_def)
  have "event_set 0 ?s = Inr ?s'"
    by (simp add: event_set_def call_soon_threadsafe_def init_rt_def upd_loop_def)
  moreover have "ambient_event ?c = Some 0" by (simp add: ambient_event_def ctx_get_def)
  ultimately show ?thesis
    using cancel_reaches_worker [of ?c 0 ?s ?s' "[Post (CbSetEvent 5), Turn, Post CbStop, Turn]"]
    unfolding ev by (simp add: turns_def)
qed

end
