(* ===== verification/Koil_Tracebacks.thy ===== *)
theory Koil_Tracebacks
  imports Koil_Context
begin

section \<open>Traceback rewriting (koil/tracebacks.py)\<close>

text \<open>
  \<open>should_rewrite\<close>, \<open>_is_hidden\<close>, \<open>_prune_one\<close> and the worklist of \<open>prune_traceback\<close>. Exception
  objects are mutable and may be chained in any way, cycles included: the worklist runs
  over a heap of objects addressed by their identity. The bridges handle exceptions as
  values; \<open>prune_exn\<close> is the same rewriting on values, and the refinement at the end
  relates the two.
\<close>

subsection \<open>When to rewrite\<close>

definition should_rewrite :: "caller \<Rightarrow> 'z rt_scheme \<Rightarrow> bool" where
  "should_rewrite c s =
     (let v = (case rt_environ s ''KOIL_FULL_TRACEBACK'' of None \<Rightarrow> '''' | Some x \<Rightarrow> x) in
      if py_lower (py_strip v) \<in> {''1'', ''true'', ''yes'', ''on''} then False
      else case ambient_koil c of
        Some k \<Rightarrow> k_rewrite_tracebacks (rt_koils s k)
      | None \<Rightarrow> rt_rewrite_tracebacks s)"

subsection \<open>Which frames to drop\<close>

definition hidden_modules :: "string list" where
  "hidden_modules = [''concurrent.futures._base'', ''concurrent.futures.thread'']"

text \<open>
  \<open>None\<close>: the truth test of the local \<open>__tracebackhide__\<close> raised. The test comes first, so the
  module is only looked at for a frame that is not marked.
\<close>

definition is_hidden :: "tb_entry \<Rightarrow> bool option" where
  "is_hidden tb =
     (let frame = tb_frame tb in
      case (case map_of (f_locals frame) ''__tracebackhide__'' of
              None \<Rightarrow> Some False | Some v \<Rightarrow> truth v) of
        None \<Rightarrow> None
      | Some True \<Rightarrow> Some True
      | Some False \<Rightarrow>
          Some (case map_of (f_globals frame) ''__name__'' of
                  Some (PyStr m) \<Rightarrow> m \<in> set hidden_modules | _ \<Rightarrow> False))"

text \<open>The loop over the entries of one traceback: \<open>kept\<close> and \<open>index\<close> are the source's variables.\<close>

fun keep_loop :: "bool \<Rightarrow> nat \<Rightarrow> tb_entry list \<Rightarrow> tb_entry list \<Rightarrow> tb_entry list option" where
  "keep_loop keep_boundary index kept [] = Some kept"
| "keep_loop keep_boundary index kept (tb # tbs) =
     (if index = 0 \<and> keep_boundary then keep_loop keep_boundary (index + 1) (kept @ [tb]) tbs
      else case is_hidden tb of
        None \<Rightarrow> None
      | Some True \<Rightarrow> keep_loop keep_boundary (index + 1) kept tbs
      | Some False \<Rightarrow> keep_loop keep_boundary (index + 1) (kept @ [tb]) tbs)"

text \<open>\<open>for entry in reversed(kept)\<close>: each new traceback object is linked before the last one.\<close>

definition relink :: "tb_entry list \<Rightarrow> tb_entry list" where
  "relink kept =
     fold (\<lambda>x new_tb. \<lparr>tb_frame = tb_frame x, tb_lasti = tb_lasti x, tb_lineno = tb_lineno x\<rparr> # new_tb)
       (rev kept) []"

text \<open>
  \<open>_prune_one\<close> on the traceback of an object: the new traceback, the same one where the
  source returns early, \<open>None\<close> where a truth test raises.
\<close>

definition prune_one :: "bool \<Rightarrow> tb_entry list \<Rightarrow> tb_entry list option" where
  "prune_one keep_boundary tb =
     (if tb = [] then Some tb
      else case keep_loop keep_boundary 0 [] tb of
        None \<Rightarrow> None
      | Some kept \<Rightarrow>
          if length kept \<le> (if keep_boundary then 1 else 0) then Some tb
          else Some (relink kept))"

subsection \<open>The worklist\<close>

text \<open>
  An exception object is its class, its message, its traceback and its chained objects;
  an object's identity is its index in the heap. The caught \<open>except Exception: pass\<close> leaves the object as it is.
\<close>

record exc_obj =
  x_cls :: exn_class
  x_msg :: string
  x_tb :: "tb_entry list"
  x_cause :: "nat option"
  x_context :: "nat option"

definition prune_obj :: "bool \<Rightarrow> exc_obj \<Rightarrow> exc_obj" where
  "prune_obj keep x = (case prune_one keep (x_tb x) of None \<Rightarrow> x | Some tb \<Rightarrow> x\<lparr>x_tb := tb\<rparr>)"

text \<open>
  The stack is a list with its top first, so \<open>stack.append\<close> puts an item in front: the
  context, appended last, is popped first. A reference outside the heap stands for no
  object and is skipped like \<open>None\<close>.
\<close>

function prune_loop ::
    "exc_obj list \<Rightarrow> nat list \<Rightarrow> (nat option \<times> bool) list \<Rightarrow> exc_obj list" where
  "prune_loop h seen [] = h"
| "prune_loop h seen ((None, keep) # stack) = prune_loop h seen stack"
| "prune_loop h seen ((Some x, keep) # stack) =
     (if x \<in> set seen \<or> \<not> x < length h then prune_loop h seen stack
      else prune_loop (h[x := prune_obj keep (h ! x)]) (x # seen)
             ((x_context (h ! x), False) # (x_cause (h ! x), False) # stack))"
  by pat_completeness auto
termination
proof (relation "measures [\<lambda>(h, seen, stack). card ({..<length h} - set seen),
    \<lambda>(h, seen, stack). length stack]", goal_cases)
  case (4 h seen x keep stack)
  then have "{..<length h} - set (x # seen) \<subset> {..<length h} - set seen"
    by auto
  then have "card ({..<length h} - set (x # seen)) < card ({..<length h} - set seen)"
    by (intro psubset_card_mono) simp_all
  then show ?case by simp
qed simp_all

text \<open>
  \<open>prune_traceback(exc, keep_boundary=...)\<close> on the heap, and on an exception value: the value
  itself is the object \<open>exc\<close>, its cause and context the chained ones.
\<close>

definition prune_traceback :: "bool \<Rightarrow> nat \<Rightarrow> exc_obj list \<Rightarrow> exc_obj list" where
  "prune_traceback keep_boundary exc h = prune_loop h [] [(Some exc, keep_boundary)]"

fun prune_exn :: "bool \<Rightarrow> exn \<Rightarrow> exn" where
  "prune_exn keep (Exn c m tb cause ctxt) =
     Exn c m (case prune_one keep tb of None \<Rightarrow> tb | Some tb' \<Rightarrow> tb')
       (map_option (prune_exn False) cause) (map_option (prune_exn False) ctxt)"

subsection \<open>One traceback\<close>

text \<open>
  The specification of \<open>_prune_one\<close>: with \<open>keep_boundary\<close> the first entry stays, every
  other entry stays if it is not hidden, and where nothing beyond the boundary would be
  left the traceback stays as it is.
\<close>

definition visible :: "tb_entry \<Rightarrow> bool" where
  "visible t = (is_hidden t = Some False)"

definition testable :: "bool \<Rightarrow> tb_entry list \<Rightarrow> bool" where
  "testable keep tb = (\<forall>t \<in> set (if keep then tl tb else tb). is_hidden t \<noteq> None)"

definition informative :: "bool \<Rightarrow> tb_entry list \<Rightarrow> bool" where
  "informative keep tb = (\<exists>t \<in> set (if keep then tl tb else tb). visible t)"

definition pruned :: "bool \<Rightarrow> tb_entry list \<Rightarrow> tb_entry list" where
  "pruned keep tb =
     (if testable keep tb \<and> informative keep tb
      then (if keep then hd tb # filter visible (tl tb) else filter visible tb)
      else tb)"

lemma keep_loop_tail:
  "keep_loop keep (Suc n) kept tb =
     (if \<forall>t \<in> set tb. is_hidden t \<noteq> None then Some (kept @ filter visible tb) else None)"
  by (induction tb arbitrary: n kept) (auto simp: visible_def split: option.splits bool.splits)

lemma keep_loop_False:
  "keep_loop False n kept tb =
     (if \<forall>t \<in> set tb. is_hidden t \<noteq> None then Some (kept @ filter visible tb) else None)"
  by (induction tb arbitrary: n kept) (auto simp: visible_def split: option.splits bool.splits)

lemma keep_loop_eq:
  "tb \<noteq> [] \<Longrightarrow> keep_loop keep 0 [] tb =
     (if testable keep tb
      then Some (if keep then hd tb # filter visible (tl tb) else filter visible tb) else None)"
  by (cases keep; cases tb)
    (simp_all add: testable_def keep_loop_tail keep_loop_False del: keep_loop.simps(2),
      simp add: keep_loop_tail)

lemma relink_id [simp]: "relink kept = kept"
proof -
  have "fold (\<lambda>x new_tb. \<lparr>tb_frame = tb_frame x, tb_lasti = tb_lasti x, tb_lineno = tb_lineno x\<rparr> # new_tb)
      (rev kept) acc = kept @ acc" for acc
    by (induction kept arbitrary: acc) simp_all
  then show ?thesis by (simp add: relink_def)
qed

lemma prune_one_eq:
  "prune_one keep tb = (if testable keep tb then Some (pruned keep tb) else None)"
  by (cases "tb = []")
    (auto simp: prune_one_def keep_loop_eq pruned_def informative_def testable_def filter_empty_conv
      Suc_le_eq)

lemma prune_obj_eq: "prune_obj keep x = x\<lparr>x_tb := pruned keep (x_tb x)\<rparr>"
  by (auto simp: prune_obj_def prune_one_eq pruned_def)

lemma visible_testable: "visible t \<Longrightarrow> is_hidden t \<noteq> None"
  by (simp add: visible_def)

lemma pruned_idem: "pruned keep (pruned keep tb) = pruned keep tb"
  by (auto simp: pruned_def testable_def informative_def visible_testable)

lemma pruned_empty_iff: "pruned keep tb = [] \<longleftrightarrow> tb = []"
  by (auto simp: pruned_def informative_def filter_empty_conv)

lemma pruned_keeps_head: "tb \<noteq> [] \<Longrightarrow> hd (pruned True tb) = hd tb"
  by (simp add: pruned_def)

lemma pruned_subset: "set (pruned keep tb) \<subseteq> set tb"
  by (cases tb) (auto simp: pruned_def informative_def)

lemma pruned_visible: "visible t \<Longrightarrow> t \<in> set tb \<Longrightarrow> t \<in> set (pruned keep tb)"
  by (cases tb) (auto simp: pruned_def)

subsection \<open>The chained objects\<close>

definition links :: "exc_obj list \<Rightarrow> nat \<Rightarrow> nat \<Rightarrow> bool" where
  "links h x y \<longleftrightarrow>
     x < length h \<and> y < length h \<and> (x_cause (h ! x) = Some y \<or> x_context (h ! x) = Some y)"

abbreviation chained :: "exc_obj list \<Rightarrow> nat \<Rightarrow> nat \<Rightarrow> bool" where
  "chained h \<equiv> (links h)\<^sup>*\<^sup>*"

lemma chain_prune_obj [simp]:
  "i < length h \<Longrightarrow> x_cause (h[x := prune_obj keep (h ! x)] ! i) = x_cause (h ! i)"
  "i < length h \<Longrightarrow> x_context (h[x := prune_obj keep (h ! x)] ! i) = x_context (h ! i)"
  by (cases "i = x"; simp add: prune_obj_eq)+

lemma links_prune_obj [simp]: "links (h[x := prune_obj keep (h ! x)]) = links h"
  by (auto simp: links_def fun_eq_iff)

text \<open>The objects on the stack, and that the links out of seen objects lead to seen or stacked ones.\<close>

definition stacked :: "exc_obj list \<Rightarrow> (nat option \<times> bool) list \<Rightarrow> nat set" where
  "stacked h stack = {x. x < length h \<and> Some x \<in> fst ` set stack}"

definition seen_closed :: "exc_obj list \<Rightarrow> nat list \<Rightarrow> (nat option \<times> bool) list \<Rightarrow> bool" where
  "seen_closed h seen stack \<longleftrightarrow>
     (\<forall>x \<in> set seen. \<forall>y. links h x y \<longrightarrow> y \<in> set seen \<or> y \<in> stacked h stack)"

lemma chained_leaves_seen:
  assumes "chained h x i" and "x \<in> set seen" and "i \<notin> set seen" and "seen_closed h seen stack"
  shows "\<exists>y \<in> stacked h stack. chained h y i"
  using assms
proof (induction rule: converse_rtranclp_induct)
  case (step x y)
  then show ?case
    by (cases "y \<in> set seen") (auto simp: seen_closed_def)
qed simp

text \<open>What a run of the worklist makes of the object \<open>i\<close>, when every stacked item has \<open>keep\<close> off.\<close>

definition expected :: "exc_obj list \<Rightarrow> nat list \<Rightarrow> nat set \<Rightarrow> nat \<Rightarrow> exc_obj" where
  "expected h seen roots i =
     (if i \<notin> set seen \<and> (\<exists>x \<in> roots. chained h x i) then prune_obj False (h ! i) else h ! i)"

lemma stacked_simps [simp]:
  "stacked h [] = {}"
  "stacked h ((None, k) # stack) = stacked h stack"
  "stacked h ((Some x, k) # stack) =
     (if x < length h then insert x (stacked h stack) else stacked h stack)"
  "stacked (h[x := o']) stack = stacked h stack"
  by (auto simp: stacked_def)

lemma seen_closed_push:
  "seen_closed h seen ((Some x, k) # stack) \<Longrightarrow>
   seen_closed (h[x := prune_obj k' (h ! x)]) (x # seen)
     ((x_context (h ! x), False) # (x_cause (h ! x), False) # stack)"
  unfolding seen_closed_def
  by (auto simp: links_def stacked_def split: if_splits)

lemma chained_via_stack:
  assumes "chained h x i" and "i \<noteq> x"
  shows "\<exists>y \<in> stacked h [(x_context (h ! x), False), (x_cause (h ! x), False)]. chained h y i"
proof -
  from assms obtain y where "links h x y" and "chained h y i"
    by (metis converse_rtranclpE)
  then show ?thesis by (auto simp: links_def stacked_def)
qed

lemma expected_push:
  fixes stack :: "(nat option \<times> bool) list"
  assumes "x \<notin> set seen" and "x < length h"
  defines "h' \<equiv> h[x := prune_obj False (h ! x)]"
    and "new \<equiv> (x_context (h ! x), False) # (x_cause (h ! x), False) # stack"
  assumes "i < length h"
  shows "expected h' (x # seen) (stacked h' new) i = expected h seen (insert x (stacked h stack)) i"
proof (cases "i = x")
  case True
  with assms show ?thesis by (auto simp: expected_def)
next
  case False
  have "(\<exists>y \<in> stacked h new. chained h y i) \<longleftrightarrow> (\<exists>y \<in> insert x (stacked h stack). chained h y i)"
  proof
    assume "\<exists>y \<in> stacked h new. chained h y i"
    then obtain y where y: "y \<in> stacked h new" and i: "chained h y i" by blast
    then have "y \<in> stacked h stack \<or> links h x y"
      using assms(2) by (auto simp: new_def stacked_def links_def)
    then show "\<exists>y \<in> insert x (stacked h stack). chained h y i"
      using i by (auto intro: converse_rtranclp_into_rtranclp)
  next
    assume "\<exists>y \<in> insert x (stacked h stack). chained h y i"
    then show "\<exists>y \<in> stacked h new. chained h y i"
      using chained_via_stack [of h x i] False by (auto simp: new_def stacked_def)
  qed
  with False show ?thesis
    by (simp add: expected_def h'_def nth_list_update)
qed

lemma prune_loop_spec:
  assumes "seen_closed h seen stack" and "\<forall>p \<in> set stack. \<not> snd p"
  shows "length (prune_loop h seen stack) = length h \<and>
    (\<forall>i < length h. prune_loop h seen stack ! i = expected h seen (stacked h stack) i)"
  using assms
proof (induction h seen stack rule: prune_loop.induct)
  case (1 h seen)
  then show ?case by (simp add: expected_def)
next
  case (2 h seen keep stack)
  then show ?case by (simp add: seen_closed_def)
next
  case (3 h seen x keep stack)
  show ?case
  proof (cases "x \<in> set seen \<or> \<not> x < length h")
    case True
    then have closed: "seen_closed h seen stack"
      using "3.prems"(1) by (auto simp: seen_closed_def split: if_splits)
    have "expected h seen (stacked h ((Some x, keep) # stack)) i
        = expected h seen (stacked h stack) i" for i
      using True chained_leaves_seen [OF _ _ _ closed] by (auto simp: expected_def)
    with True "3.IH"(1) closed "3.prems"(2) show ?thesis by simp
  next
    case False
    let ?h = "h[x := prune_obj keep (h ! x)]"
    let ?new = "(x_context (h ! x), False) # (x_cause (h ! x), False) # stack"
    have "\<not> keep" using "3.prems"(2) by simp
    have "length (prune_loop ?h (x # seen) ?new) = length ?h \<and>
      (\<forall>i < length ?h. prune_loop ?h (x # seen) ?new ! i = expected ?h (x # seen) (stacked ?h ?new) i)"
      using "3.IH"(2) [OF False] seen_closed_push [OF "3.prems"(1)] "3.prems"(2) by simp
    with False \<open>\<not> keep\<close> expected_push [of x seen h _ stack] show ?thesis by simp
  qed
qed

lemma prune_traceback_eq:
  assumes "r < length h"
  shows "prune_traceback keep r h = map (\<lambda>i. if i = r then prune_obj keep (h ! i)
      else if chained h r i then prune_obj False (h ! i) else h ! i) [0..<length h]"
proof (rule nth_equalityI)
  let ?h = "h[r := prune_obj keep (h ! r)]"
  let ?new = "[(x_context (h ! r), False), (x_cause (h ! r), False)]"
  have run: "prune_traceback keep r h = prune_loop ?h [r] ?new"
    using assms by (simp add: prune_traceback_def)
  have "seen_closed h [] [(Some r, keep)]" by (simp add: seen_closed_def)
  from prune_loop_spec [OF seen_closed_push [OF this], of keep]
  have spec: "length (prune_loop ?h [r] ?new) = length h"
    "i < length h \<Longrightarrow> prune_loop ?h [r] ?new ! i = expected ?h [r] (stacked ?h ?new) i" for i
    by simp_all
  show "length (prune_traceback keep r h) = length (map (\<lambda>i. if i = r then prune_obj keep (h ! i)
      else if chained h r i then prune_obj False (h ! i) else h ! i) [0..<length h])"
    by (simp add: run spec(1))
  fix i assume "i < length (prune_traceback keep r h)"
  then have i: "i < length h" by (simp add: run spec(1))
  have "(\<exists>y \<in> stacked h ?new. chained h y i) \<longleftrightarrow> chained h r i" if "i \<noteq> r"
  proof
    assume "\<exists>y \<in> stacked h ?new. chained h y i"
    then obtain y where "y \<in> stacked h ?new" and "chained h y i" by blast
    moreover from this(1) have "links h r y"
      using assms by (auto simp: stacked_def links_def)
    ultimately show "chained h r i" by (blast intro: converse_rtranclp_into_rtranclp)
  qed (use chained_via_stack that in blast)
  with i assms show "prune_traceback keep r h ! i = map (\<lambda>i. if i = r then prune_obj keep (h ! i)
      else if chained h r i then prune_obj False (h ! i) else h ! i) [0..<length h] ! i"
    by (auto simp: run spec(2) expected_def nth_list_update)
qed

lemma length_prune_traceback [simp]: "length (prune_traceback keep r h) = length h"
  by (cases "r < length h") (simp_all add: prune_traceback_eq, simp add: prune_traceback_def)

subsection \<open>Exception values\<close>

text \<open>
  The object \<open>x\<close> of a heap is the exception value \<open>e\<close>. Two objects of the value may be one
  object of the heap (\<open>raise ... from e\<close> makes \<open>e\<close> both cause and context); a chain with a
  cycle is no value.
\<close>

fun represents :: "exc_obj list \<Rightarrow> nat \<Rightarrow> exn \<Rightarrow> bool" where
  "represents h x (Exn c m tb cause ctxt) =
     (x < length h \<and> x_cls (h ! x) = c \<and> x_msg (h ! x) = m \<and> x_tb (h ! x) = tb \<and>
      (case cause of None \<Rightarrow> x_cause (h ! x) = None
       | Some e \<Rightarrow> (case x_cause (h ! x) of None \<Rightarrow> False | Some y \<Rightarrow> represents h y e)) \<and>
      (case ctxt of None \<Rightarrow> x_context (h ! x) = None
       | Some e \<Rightarrow> (case x_context (h ! x) of None \<Rightarrow> False | Some y \<Rightarrow> represents h y e)))"

lemma represents_unique: "represents h x e \<Longrightarrow> represents h x e' \<Longrightarrow> e = e'"
proof (induction e arbitrary: x e')
  case (Exn c m tb cause ctxt)
  obtain c' m' tb' cause' ctxt' where e': "e' = Exn c' m' tb' cause' ctxt'" by (cases e')
  have "cause = cause'"
    using Exn.prems Exn.IH(1) unfolding e' by (auto split: option.splits)
  moreover have "ctxt = ctxt'"
    using Exn.prems Exn.IH(2) unfolding e' by (auto split: option.splits)
  ultimately show ?case using Exn.prems e' by simp
qed

lemma represents_bound: "represents h x e \<Longrightarrow> x < length h"
  by (cases e) simp

lemma represents_links:
  assumes "represents h x e" and "links h x y"
  shows "\<exists>e'. represents h y e' \<and> size e' < size e"
  using assms by (cases e) (auto simp: links_def split: option.splits)

lemma represents_chained:
  assumes "(links h)\<^sup>+\<^sup>+ x y" and "represents h x e"
  shows "\<exists>e'. represents h y e' \<and> size e' < size e"
  using assms
proof (induction rule: tranclp_induct)
  case (base y)
  then show ?case using represents_links by blast
next
  case (step y z)
  then show ?case using represents_links by (meson order.strict_trans)
qed

lemma represents_acyclic: "represents h x e \<Longrightarrow> \<not> (links h)\<^sup>+\<^sup>+ x x"
  using represents_chained represents_unique by (metis less_irrefl)

lemma represents_pruned:
  assumes "represents h x e" and "length h' = length h"
    and "\<And>i. i < length h \<Longrightarrow> chained h x i \<Longrightarrow> h' ! i = prune_obj False (h ! i)"
  shows "represents h' x (prune_exn False e)"
  using assms
proof (induction e arbitrary: x)
  case (Exn c m tb cause ctxt)
  have x: "x < length h" using Exn.prems(1) by simp
  have hx: "h' ! x = prune_obj False (h ! x)" using Exn.prems(3) x by simp
  have below: "h' ! i = prune_obj False (h ! i)"
    if "links h x y" and "i < length h" and "chained h y i" for y i
    using that Exn.prems(3) by (meson converse_rtranclp_into_rtranclp)
  have cause: "represents h' y (prune_exn False e')"
    if "cause = Some e'" and "x_cause (h ! x) = Some y" and "represents h y e'" for y e'
  proof (rule Exn.IH(1) [OF _ that(3) Exn.prems(2)])
    have "links h x y" using that x represents_bound by (auto simp: links_def)
    then show "i < length h \<Longrightarrow> chained h y i \<Longrightarrow> h' ! i = prune_obj False (h ! i)" for i
      by (rule below)
  qed (simp add: that(1))
  have ctxt: "represents h' y (prune_exn False e')"
    if "ctxt = Some e'" and "x_context (h ! x) = Some y" and "represents h y e'" for y e'
  proof (rule Exn.IH(2) [OF _ that(3) Exn.prems(2)])
    have "links h x y" using that x represents_bound by (auto simp: links_def)
    then show "i < length h \<Longrightarrow> chained h y i \<Longrightarrow> h' ! i = prune_obj False (h ! i)" for i
      by (rule below)
  qed (simp add: that(1))
  have tb: "(case prune_one False tb of None \<Rightarrow> tb | Some t \<Rightarrow> t) = pruned False tb"
    by (auto simp: prune_one_eq pruned_def)
  show ?case
    using Exn.prems(1,2) x hx cause ctxt
    by (auto simp: tb prune_obj_eq split: option.splits)
qed

lemma prune_traceback_represents:
  assumes "represents h r e"
  shows "represents (prune_traceback keep r h) r (prune_exn keep e)"
proof -
  let ?h = "prune_traceback keep r h"
  obtain c m tb cause ctxt where e: "e = Exn c m tb cause ctxt" by (cases e)
  have r: "r < length h" using assms by (rule represents_bound)
  have at: "?h ! i = (if i = r then prune_obj keep (h ! i)
      else if chained h r i then prune_obj False (h ! i) else h ! i)" if "i < length h" for i
    using that by (simp add: prune_traceback_eq [OF r])
  have sub: "represents ?h y (prune_exn False e')" if "links h r y" and "represents h y e'" for y e'
  proof (rule represents_pruned [OF that(2)])
    fix i assume i: "i < length h" and "chained h y i"
    then have "(links h)\<^sup>+\<^sup>+ r i" using that(1) by (meson rtranclp_into_tranclp2)
    moreover from this have "i \<noteq> r" using represents_acyclic [OF assms] by auto
    ultimately show "?h ! i = prune_obj False (h ! i)"
      using at [OF i] by (auto dest: tranclp_into_rtranclp)
  qed simp
  have tb: "(case prune_one keep tb of None \<Rightarrow> tb | Some t \<Rightarrow> t) = pruned keep tb"
    by (auto simp: prune_one_eq pruned_def)
  show ?thesis
    using assms r at [OF r] sub represents_bound unfolding e
    by (auto simp: tb prune_obj_eq links_def split: option.splits)
qed

subsection \<open>Properties\<close>

lemma prune_one_or_same: "(case prune_one keep tb of None \<Rightarrow> tb | Some t \<Rightarrow> t) = pruned keep tb"
  by (auto simp: prune_one_eq pruned_def)

lemma prune_exn_simps [simp]:
  "ecls (prune_exn keep e) = ecls e" "emsg (prune_exn keep e) = emsg e"
  "etb (prune_exn keep e) = pruned keep (etb e)"
  by (cases e; simp add: prune_one_or_same)+

lemma catches_prune_exn [simp]: "catches cs (prune_exn keep e) = catches cs e"
  by (simp add: catches_def)

text \<open>
  C2: \<open>prune_traceback\<close> over any chain of exceptions, cyclic ones included: the traceback
  of the exception itself is pruned with the given \<open>keep_boundary\<close>, that of every
  exception reachable from it along \<open>__cause__\<close> and \<open>__context__\<close> is pruned without,
  each once, and no other object and no chain is changed.
\<close>

theorem prune_traceback_correct:
  assumes "exc < length h"
  shows "prune_traceback keep exc h = map (\<lambda>i.
    if i = exc then (h ! i)\<lparr>x_tb := pruned keep (x_tb (h ! i))\<rparr>
    else if chained h exc i then (h ! i)\<lparr>x_tb := pruned False (x_tb (h ! i))\<rparr>
    else h ! i) [0..<length h]"
  using prune_traceback_eq [OF assms] by (simp add: prune_obj_eq cong: if_cong)

definition hidden_entry :: tb_entry where
  "hidden_entry = entry ''koil.utils'' ''passed_with_context'' True 460"

definition shown_entry :: tb_entry where
  "shown_entry = entry ''app'' ''load'' False 9"

definition cyclic_heap :: "exc_obj list" where
  "cyclic_heap =
     [\<lparr>x_cls = ValueError, x_msg = ''a'', x_tb = [hidden_entry, hidden_entry, shown_entry],
       x_cause = Some 1, x_context = None\<rparr>,
      \<lparr>x_cls = TypeError, x_msg = ''b'', x_tb = [hidden_entry, shown_entry],
       x_cause = None, x_context = Some 0\<rparr>]"

lemma visible_entries [simp]: "\<not> visible hidden_entry" "visible shown_entry"
  "is_hidden hidden_entry = Some True" "is_hidden shown_entry = Some False"
  by (simp_all add: visible_def is_hidden_def hidden_entry_def shown_entry_def entry_def
      hidden_modules_def)

theorem prune_traceback_correct_witness:
  "prune_traceback True 0 cyclic_heap =
     [(cyclic_heap ! 0)\<lparr>x_tb := [hidden_entry, shown_entry]\<rparr>,
      (cyclic_heap ! 1)\<lparr>x_tb := [shown_entry]\<rparr>]"
proof -
  have "links cyclic_heap 0 1" by (simp add: links_def cyclic_heap_def)
  then have "chained cyclic_heap 0 (Suc 0)" by auto
  then show ?thesis
    using prune_traceback_correct [of 0 cyclic_heap True]
    by (simp add: cyclic_heap_def pruned_def testable_def informative_def ex_bool_eq)
qed

text \<open>
  What \<open>_prune_one\<close> leaves of a traceback. Unless a truth test raises (then the
  caller leaves the traceback alone), the result is the boundary entry, if asked for, and
  after it exactly the entries that are not hidden, in their order; where no such entry
  exists the traceback stays as it is, so an error of koil itself keeps its frames and no
  traceback is ever emptied.
\<close>

lemma prune_one_correct:
  "prune_one keep tb =
     (if \<forall>t \<in> set (if keep then tl tb else tb). is_hidden t \<noteq> None
      then Some (if \<exists>t \<in> set (if keep then tl tb else tb). visible t
                 then (if keep then [hd tb] else []) @ filter visible (if keep then tl tb else tb)
                 else tb)
      else None)"
  by (simp add: prune_one_eq pruned_def testable_def informative_def)

lemma prune_one_correct_witness:
  "prune_one True [hidden_entry, hidden_entry, shown_entry] = Some [hidden_entry, shown_entry] \<and>
   prune_one True [shown_entry, hidden_entry] = Some [shown_entry, hidden_entry]"
  using prune_one_correct [of True "[hidden_entry, hidden_entry, shown_entry]"]
    prune_one_correct [of True "[shown_entry, hidden_entry]"]
  by (simp add: ex_bool_eq)

text \<open>
  C16: pruning is idempotent, as the loop side and the sync side of a bridge rely on when
  both prune the same exception object: doing it again changes no object.
\<close>

theorem prune_traceback_idempotent:
  "prune_traceback keep exc (prune_traceback keep exc h) = prune_traceback keep exc h"
proof (cases "exc < length h")
  case True
  let ?h = "prune_traceback keep exc h"
  have at: "?h ! i = (if i = exc then prune_obj keep (h ! i)
      else if chained h exc i then prune_obj False (h ! i) else h ! i)" if "i < length h" for i
    using that by (simp add: prune_traceback_eq [OF True])
  have "links ?h = links h"
    by (auto simp: links_def fun_eq_iff at prune_obj_eq split: if_splits)
  moreover have "exc < length ?h" using True by simp
  ultimately show ?thesis
    by (intro nth_equalityI) (auto simp: prune_traceback_eq [of exc ?h] at prune_obj_eq pruned_idem)
qed (simp add: prune_traceback_def)

text \<open>
  C17: the rewriting the bridges do on exception values is the one \<open>prune_traceback\<close> does
  on the objects: a heap object that represents a value represents the pruned value
  afterwards.
\<close>

theorem prune_traceback_refines_value:
  assumes "represents h exc e"
  shows "represents (prune_traceback keep exc h) exc (prune_exn keep e)"
  using assms by (rule prune_traceback_represents)

theorem prune_traceback_refines_value_witness:
  "represents (prune_traceback True 0 [(cyclic_heap ! 0)\<lparr>x_cause := None\<rparr>]) 0
     (prune_exn True (Exn ValueError ''a'' [hidden_entry, hidden_entry, shown_entry] None None))"
  by (rule prune_traceback_refines_value) (simp add: cyclic_heap_def)

end
