(* ===== verification/Koil_Loop.thy ===== *)
theory Koil_Loop
  imports Koil_Tracebacks
begin

section \<open>The event loop and its lifecycle (koil/loop.py)\<close>

text \<open>
  Creating a loop and its thread, the shutdown sequence on that thread, and the methods of
  \<open>Koil\<close>. A \<open>Koil\<close> object is addressed by its number in the shared state; its methods
  take and return the frame that calls them (its context) and the shared state.

  How long the loop's thread takes to end after it was told to stop is not decided by
  koil: it is an argument of \<open>koil_exit\<close>, \<open>None\<close> for a thread that never ends.
\<close>

subsection \<open>Loops and threads\<close>

text \<open>
  The version test and \<open>hasattr(asyncio, "SelectorEventLoop")\<close> hold on every Python koil
  supports, so the platform decides.
\<close>

definition new_event_loop :: "bool \<Rightarrow> 'z rt_scheme \<Rightarrow> loop_kind" where
  "new_event_loop uvify s =
     (if uvify then (if rt_uvloop s then UvLoop else DefaultLoop)
      else if rt_os_nt s then SelectorLoop
      else DefaultLoop)"

definition fresh_loop :: "loop_kind \<Rightarrow> loop_st" where
  "fresh_loop kd = \<lparr>l_kind = kd, l_closed = False, l_stopping = False, l_ready = [], l_timers = []\<rparr>"

definition hide_from_debugger :: "'z rt_scheme \<Rightarrow> bool" where
  "hide_from_debugger s =
     (let v = (case rt_environ s ''KOIL_DO_TRACE'' of None \<Rightarrow> '''' | Some x \<Rightarrow> x)
      in py_lower (py_strip v) \<in> {''0'', ''false'', ''no'', ''off''})"

definition get_threaded_loop :: "string \<Rightarrow> bool \<Rightarrow> 'z rt_scheme \<Rightarrow> (nat \<times> nat) \<times> 'z rt_scheme" where
  "get_threaded_loop name uvify s =
     (let l = rt_nloops s;
          th = \<lparr>th_name = name, th_do_not_trace = hide_from_debugger s,
                th_is_daemon_thread = hide_from_debugger s, th_daemon = True, th_alive = True\<rparr>
      in ((l, l), s\<lparr>rt_loops := (rt_loops s)(l := fresh_loop (new_event_loop uvify s)),
                    rt_threads := (rt_threads s)(l := th),
                    rt_nloops := Suc l\<rparr>))"

subsection \<open>The shutdown sequence\<close>

text \<open>How an outstanding task ends after the shutdown cancelled it.\<close>

datatype task_end = TaskCancelled | TaskRaised exn | TaskReturned pyval

text \<open>\<open>for task in tasks\<close> after the gather: what is handed to the loop's exception handler.\<close>

fun shutdown_reports :: "task_end list \<Rightarrow> exn list" where
  "shutdown_reports [] = []"
| "shutdown_reports (TaskCancelled # ts) = shutdown_reports ts"
| "shutdown_reports (TaskRaised e # ts) = e # shutdown_reports ts"
| "shutdown_reports (TaskReturned v # ts) = shutdown_reports ts"

text \<open>
  \<open>run_threaded_event_loop\<close>: what \<open>run_forever\<close>, the run of the gather and the run of
  \<open>shutdown_asyncgens\<close> raise, if anything, and how the outstanding tasks end, are
  arguments. The result is the exception that leaves the function (the last one raised),
  the reports, and the state with the loop closed by the inner \<open>finally\<close>.
\<close>

definition run_threaded_event_loop ::
    "nat \<Rightarrow> exn option \<Rightarrow> exn option \<Rightarrow> task_end list \<Rightarrow> exn option \<Rightarrow> 'z rt_scheme \<Rightarrow>
     exn option \<times> exn list \<times> 'z rt_scheme" where
  "run_threaded_event_loop l forever gathered tasks asyncgens s =
     (let closed = upd_loop l (\<lambda>x. x\<lparr>l_closed := True\<rparr>) s in
      case gathered of
        Some e \<Rightarrow> (Some e, [], closed)
      | None \<Rightarrow>
          (case asyncgens of
             Some e \<Rightarrow> (Some e, shutdown_reports tasks, closed)
           | None \<Rightarrow> (forever, shutdown_reports tasks, closed)))"

subsection \<open>Koil\<close>

definition SHUTDOWN_JOIN_TIMEOUT :: time where
  "SHUTDOWN_JOIN_TIMEOUT = 5"

definition koil_init ::
    "bool \<Rightarrow> bool \<Rightarrow> time option \<Rightarrow> bool \<Rightarrow> time option \<Rightarrow> 'z rt_scheme \<Rightarrow> nat \<times> 'z rt_scheme" where
  "koil_init sync_in_async uvify shutdown_join_timeout rewrite_tracebacks cancel_timeout s =
     (let k = rt_nkoils s in
      (k, s\<lparr>rt_koils := (rt_koils s)(k :=
              \<lparr>k_loop = None, k_loop_thread = None, k_running = False,
               k_sync_in_async = sync_in_async, k_uvify = uvify, k_cancel_timeout = cancel_timeout,
               k_rewrite_tracebacks = rewrite_tracebacks,
               k_shutdown_join_timeout = shutdown_join_timeout,
               k_name = None, k_creating_instance = False, k_class = ''Koil''\<rparr>),
            rt_nkoils := Suc k\<rparr>))"

text \<open>\<open>Koil()\<close>: the defaults of the constructor.\<close>

definition koil_default :: "'z rt_scheme \<Rightarrow> nat \<times> 'z rt_scheme" where
  "koil_default s = koil_init True True None True (Some 2) s"

definition upd_koil :: "nat \<Rightarrow> (koil \<Rightarrow> koil) \<Rightarrow> 'z rt_scheme \<Rightarrow> 'z rt_scheme" where
  "upd_koil k f s = s\<lparr>rt_koils := (rt_koils s)(k := f (rt_koils s k))\<rparr>"

text \<open>The property \<open>loop\<close>.\<close>

definition koil_loop :: "nat \<Rightarrow> 'z rt_scheme \<Rightarrow> exn + nat" where
  "koil_loop k s =
     (case k_loop (rt_koils s k) of
        None \<Rightarrow> Inl (new_exn (entry ''koil.loop'' ''loop'' False 237) RuntimeError
                 ''Loop is not running. This should not happen'')
      | Some l \<Rightarrow> Inr l)"

definition koil_aenter :: "nat \<Rightarrow> caller \<Rightarrow> 'z rt_scheme \<Rightarrow> caller \<times> 'z rt_scheme" where
  "koil_aenter k c s =
     (case c_running c of
        None \<Rightarrow> (c, s)
      | Some l \<Rightarrow> (set_var global_koil_loop (PyLoop l) c, upd_koil k (\<lambda>x. x\<lparr>k_loop := Some l\<rparr>) s))"

definition koil_aexit :: "nat \<Rightarrow> caller \<Rightarrow> 'z rt_scheme \<Rightarrow> caller \<times> 'z rt_scheme" where
  "koil_aexit k c s = (set_var global_koil PyNone c, s)"

definition koil_thread_name :: "koil \<Rightarrow> string" where
  "koil_thread_name x =
     (case k_name x of
        Some n \<Rightarrow> n
      | None \<Rightarrow> ''KoiledLoop '' @ (if k_creating_instance x then ''governed by'' @ k_class x else ''''))"

text \<open>
  \<open>__enter__\<close>. A \<open>ContextError\<close> is no \<open>RuntimeError\<close>, so the \<open>except\<close> clause around
  \<open>get_running_loop()\<close> lets it pass.
\<close>

definition koil_enter :: "nat \<Rightarrow> caller \<Rightarrow> 'z rt_scheme \<Rightarrow> (exn + nat) \<times> caller \<times> 'z rt_scheme" where
  "koil_enter k c s =
     (if c_running c \<noteq> None \<and> \<not> k_sync_in_async (rt_koils s k)
      then (Inl (new_exn (entry ''koil.loop'' ''__enter__'' False 262) ContextError
              ''You are running in asyncio event loop already.''), c, s)
      else
        let (c', s') =
          (case ambient_koil c of
             None \<Rightarrow>
               let ((l, th), s1) =
                     get_threaded_loop (koil_thread_name (rt_koils s k)) (k_uvify (rt_koils s k)) s
               in (set_var global_koil_loop (PyLoop l) (set_var global_koil (PyKoil k) c),
                   upd_koil k (\<lambda>x. x\<lparr>k_loop := Some l, k_loop_thread := Some th\<rparr>) s1)
           | Some _ \<Rightarrow> (c, s))
        in (Inr k, c', upd_koil k (\<lambda>x. x\<lparr>k_running := True\<rparr>) s'))"

text \<open>
  \<open>Thread.join(timeout)\<close> on a thread that ends \<open>d\<close> from now: how long it waits and whether
  the thread is alive afterwards; \<open>None\<close> for a join that never returns. A negative timeout
  counts as zero.
\<close>

fun thread_join :: "time option \<Rightarrow> time option \<Rightarrow> (time \<times> bool) option" where
  "thread_join None None = None"
| "thread_join None (Some d) = Some (d, False)"
| "thread_join (Some t) None = Some (max 0 t, True)"
| "thread_join (Some t) (Some d) = Some (if d \<le> max 0 t then (d, False) else (max 0 t, True))"

definition join_timeout :: "koil \<Rightarrow> time" where
  "join_timeout x =
     (case k_shutdown_join_timeout x of None \<Rightarrow> SHUTDOWN_JOIN_TIMEOUT | Some t \<Rightarrow> t)"

text \<open>
  The part of \<open>__exit__\<close> that waits for the thread: how long it waited in all, and whether
  the thread is still alive (and abandoned) at the end.
\<close>

definition join_loop_thread :: "koil \<Rightarrow> time option \<Rightarrow> (time \<times> bool) option" where
  "join_loop_thread x d =
     (case thread_join (k_cancel_timeout x) d of
        None \<Rightarrow> None
      | Some (w, alive) \<Rightarrow>
          if alive
          then (case thread_join (Some (join_timeout x)) (map_option (\<lambda>t. t - w) d) of
                  None \<Rightarrow> None
                | Some (w', alive') \<Rightarrow> Some (w + w', alive'))
          else Some (w, False))"

text \<open>What the end of the loop's thread leaves: the loop is closed, the thread is gone.\<close>

definition loop_thread_ended :: "nat \<Rightarrow> 'z rt_scheme \<Rightarrow> 'z rt_scheme" where
  "loop_thread_ended l s =
     (upd_loop l (\<lambda>x. x\<lparr>l_closed := True, l_ready := []\<rparr>) s)
       \<lparr>rt_threads := (rt_threads s)(l := (rt_threads s l)\<lparr>th_alive := False\<rparr>)\<rparr>"

text \<open>
  \<open>__exit__\<close>. The result is \<open>None\<close> if it never returns; otherwise what it raises, the frame
  and the state, whose clock is ahead by the time it waited. An abandoned thread keeps its loop, with the stop
  request still queued.
\<close>

definition koil_exit ::
    "nat \<Rightarrow> time option \<Rightarrow> caller \<Rightarrow> 'z rt_scheme \<Rightarrow>
     ((exn + unit) \<times> caller \<times> 'z rt_scheme) option" where
  "koil_exit k d c s =
     (case k_loop (rt_koils s k) of
        None \<Rightarrow> Some (Inr (), c, upd_koil k (\<lambda>x. x\<lparr>k_running := False\<rparr>) s)
      | Some l \<Rightarrow>
          (case call_soon_threadsafe (entry ''koil.loop'' ''__exit__'' False 294) l CbStop s of
             Inl e \<Rightarrow> Some (Inl e, c, s)
           | Inr s1 \<Rightarrow>
               (case (case k_loop_thread (rt_koils s k) of
                        None \<Rightarrow> Some (s1, 0)
                      | Some th \<Rightarrow>
                          (case join_loop_thread (rt_koils s k) d of
                             None \<Rightarrow> None
                           | Some (w, alive) \<Rightarrow>
                               Some (upd_koil k (\<lambda>x. x\<lparr>k_loop_thread := None\<rparr>)
                                 (if alive then s1 else loop_thread_ended th s1), w))) of
                  None \<Rightarrow> None
                | Some (s2, w) \<Rightarrow>
                    Some (Inr (),
                      set_var global_koil_loop PyNone (set_var global_koil PyNone c),
                      (upd_koil k (\<lambda>x. x\<lparr>k_loop := None, k_running := False\<rparr>) s2)
                        \<lparr>rt_now := rt_now s + w\<rparr>))))"

text \<open>The convenience aliases \<open>enter\<close>, \<open>exit\<close> and \<open>aenter\<close>.\<close>

definition koil_enter_alias ::
    "nat \<Rightarrow> caller \<Rightarrow> 'z rt_scheme \<Rightarrow> (exn + nat) \<times> caller \<times> 'z rt_scheme" where
  "koil_enter_alias k c s = koil_enter k c s"

definition koil_exit_alias ::
    "nat \<Rightarrow> time option \<Rightarrow> caller \<Rightarrow> 'z rt_scheme \<Rightarrow>
     ((exn + unit) \<times> caller \<times> 'z rt_scheme) option" where
  "koil_exit_alias k d c s = koil_exit k d c s"

definition koil_aenter_alias :: "nat \<Rightarrow> caller \<Rightarrow> 'z rt_scheme \<Rightarrow> caller \<times> 'z rt_scheme" where
  "koil_aenter_alias k c s = koil_aenter k c s"

subsection \<open>Facts on the operations\<close>

lemma upd_koil_simps [simp]:
  "rt_koils (upd_koil k f s) = (rt_koils s)(k := f (rt_koils s k))"
  "rt_loops (upd_koil k f s) = rt_loops s" "rt_threads (upd_koil k f s) = rt_threads s"
  "rt_nloops (upd_koil k f s) = rt_nloops s" "rt_events (upd_koil k f s) = rt_events s"
  "rt_nevents (upd_koil k f s) = rt_nevents s" "rt_nkoils (upd_koil k f s) = rt_nkoils s"
  "rt_now (upd_koil k f s) = rt_now s" "rt_environ (upd_koil k f s) = rt_environ s"
  "rt_fired (upd_koil k f s) = rt_fired s" "rt_ntimers (upd_koil k f s) = rt_ntimers s"
  by (simp_all add: upd_koil_def)

lemma loop_thread_ended_simps [simp]:
  "rt_koils (loop_thread_ended l s) = rt_koils s"
  "rt_loops (loop_thread_ended l s) =
     (rt_loops s)(l := (rt_loops s l)\<lparr>l_closed := True, l_ready := []\<rparr>)"
  "rt_threads (loop_thread_ended l s) =
     (rt_threads s)(l := (rt_threads s l)\<lparr>th_alive := False\<rparr>)"
  "rt_nloops (loop_thread_ended l s) = rt_nloops s"
  by (simp_all add: loop_thread_ended_def)

lemma get_threaded_loop_simps [simp]:
  "fst (get_threaded_loop n u s) = (rt_nloops s, rt_nloops s)"
  "rt_loops (snd (get_threaded_loop n u s)) =
     (rt_loops s)(rt_nloops s := fresh_loop (new_event_loop u s))"
  "rt_nloops (snd (get_threaded_loop n u s)) = Suc (rt_nloops s)"
  "rt_koils (snd (get_threaded_loop n u s)) = rt_koils s"
  "rt_now (snd (get_threaded_loop n u s)) = rt_now s"
  by (simp_all add: get_threaded_loop_def Let_def)

lemma fresh_loop_simps [simp]:
  "\<not> l_closed (fresh_loop kd)" "l_ready (fresh_loop kd) = []" "l_kind (fresh_loop kd) = kd"
  by (simp_all add: fresh_loop_def)

text \<open>The branches of \<open>__enter__\<close>: refused, nested in an ambient koil, and starting a loop.\<close>

lemma koil_enter_nested [koil_simps]:
  "ambient_koil c = Some j \<Longrightarrow> c_running c = None \<or> k_sync_in_async (rt_koils s k) \<Longrightarrow>
   koil_enter k c s = (Inr k, c, upd_koil k (\<lambda>x. x\<lparr>k_running := True\<rparr>) s)"
  by (auto simp: koil_enter_def)

lemma koil_enter_starts [koil_simps]:
  assumes "ambient_koil c = None" and "c_running c = None \<or> k_sync_in_async (rt_koils s k)"
  shows "koil_enter k c s =
    (Inr k, set_var global_koil_loop (PyLoop (rt_nloops s)) (set_var global_koil (PyKoil k) c),
     upd_koil k (\<lambda>x. x\<lparr>k_loop := Some (rt_nloops s), k_loop_thread := Some (rt_nloops s),
        k_running := True\<rparr>)
       (snd (get_threaded_loop (koil_thread_name (rt_koils s k)) (k_uvify (rt_koils s k)) s)))"
  using assms by (auto simp: koil_enter_def get_threaded_loop_def Let_def upd_koil_def)

lemma koil_enter_refused [koil_simps]:
  "c_running c \<noteq> None \<Longrightarrow> \<not> k_sync_in_async (rt_koils s k) \<Longrightarrow>
   koil_enter k c s = (Inl (new_exn (entry ''koil.loop'' ''__enter__'' False 262) ContextError
     ''You are running in asyncio event loop already.''), c, s)"
  by (simp add: koil_enter_def)

lemma thread_join_total: "\<exists>w alive. thread_join (Some t) d = Some (w, alive) \<and> w \<le> max 0 t"
  by (cases d) auto

lemma thread_join_alive:
  "thread_join (Some t) d = Some (w, alive) \<Longrightarrow>
   alive \<longleftrightarrow> (case d of None \<Rightarrow> True | Some x \<Rightarrow> max 0 t < x)"
  by (cases d) (auto split: if_splits)

lemma join_loop_thread_total:
  assumes "k_cancel_timeout x = Some ct"
  shows "\<exists>w alive. join_loop_thread x d = Some (w, alive) \<and> w \<le> max 0 ct + max 0 (join_timeout x)"
proof -
  obtain w alive where j: "thread_join (Some ct) d = Some (w, alive)" "w \<le> max 0 ct"
    using thread_join_total by blast
  obtain w' alive' where j': "thread_join (Some (join_timeout x)) (map_option (\<lambda>t. t - w) d)
      = Some (w', alive')" "w' \<le> max 0 (join_timeout x)"
    using thread_join_total by blast
  from j j' assms show ?thesis
    by (auto simp: join_loop_thread_def split: if_splits)
qed

lemma koil_exit_without_loop [koil_simps]:
  "k_loop (rt_koils s k) = None \<Longrightarrow>
   koil_exit k d c s = Some (Inr (), c, upd_koil k (\<lambda>x. x\<lparr>k_running := False\<rparr>) s)"
  by (simp add: koil_exit_def)

text \<open>\<open>__exit__\<close> of a koil that started its loop: it ends with the koil detached, whatever the join does.\<close>

lemma koil_exit_with_loop:
  assumes "k_loop (rt_koils s k) = Some l" and "k_loop_thread (rt_koils s k) = Some th"
    and "\<not> l_closed (rt_loops s l)" and "join_loop_thread (rt_koils s k) d = Some (w, alive)"
  shows "koil_exit k d c s = Some (Inr (),
    set_var global_koil_loop PyNone (set_var global_koil PyNone c),
    (upd_koil k (\<lambda>x. x\<lparr>k_loop_thread := None, k_loop := None, k_running := False\<rparr>)
      (let s1 = upd_loop l (\<lambda>x. x\<lparr>l_ready := l_ready x @ [CbStop]\<rparr>) s
       in if alive then s1 else loop_thread_ended th s1))\<lparr>rt_now := rt_now s + w\<rparr>)"
  using assms
  by (auto simp: koil_exit_def call_soon_threadsafe_open Let_def upd_koil_def loop_thread_ended_def
      upd_loop_def)

subsection \<open>The lifecycle as a state machine\<close>

text \<open>
  What one thread can do with koils: create one, enter one, leave one (given how its
  thread behaves), in any order and any nesting. An exit that never returns leaves the
  thread where it is.
\<close>

datatype koil_op =
    NewKoil bool bool "time option" bool "time option"
  | EnterKoil nat
  | ExitKoil nat "time option"

fun koil_step :: "koil_op \<Rightarrow> caller \<times> rt \<Rightarrow> caller \<times> rt" where
  "koil_step (NewKoil a u j r t) (c, s) = (c, snd (koil_init a u j r t s))"
| "koil_step (EnterKoil k) (c, s) = (if k < rt_nkoils s then snd (koil_enter k c s) else (c, s))"
| "koil_step (ExitKoil k d) (c, s) =
     (case koil_exit k d c s of None \<Rightarrow> (c, s) | Some (r, c', s') \<Rightarrow> (c', s'))"

text \<open>
  The invariant: a koil has a loop exactly if it is the ambient one; its loop is a loop
  with a thread, open, and the ambient loop; and every other loop is closed or has been
  told to stop, so no loop runs on unseen.
\<close>

definition owner_ok :: "caller \<Rightarrow> rt \<Rightarrow> nat \<Rightarrow> bool" where
  "owner_ok c s k \<longleftrightarrow>
     (case k_loop (rt_koils s k) of
        None \<Rightarrow> ambient_koil c \<noteq> Some k
      | Some l \<Rightarrow> k < rt_nkoils s \<and> l < rt_nloops s \<and> \<not> l_closed (rt_loops s l) \<and>
          k_loop_thread (rt_koils s k) = Some l \<and> ambient_koil c = Some k \<and>
          ambient_loop c = Some l)"

definition loop_accounted :: "caller \<Rightarrow> rt \<Rightarrow> nat \<Rightarrow> bool" where
  "loop_accounted c s l \<longleftrightarrow>
     l_closed (rt_loops s l) \<or> ambient_loop c = Some l \<or> CbStop \<in> set (l_ready (rt_loops s l))"

definition lifecycle_ok :: "caller \<times> rt \<Rightarrow> bool" where
  "lifecycle_ok = (\<lambda>(c, s).
     (\<forall>k. owner_ok c s k) \<and> (ambient_koil c = None \<longrightarrow> ambient_loop c = None) \<and>
     (\<forall>l < rt_nloops s. loop_accounted c s l))"

lemma lifecycle_new:
  assumes "lifecycle_ok (c, s)"
  shows "lifecycle_ok (c, snd (koil_init a u j r t s))"
proof -
  have "owner_ok c (snd (koil_init a u j r t s)) k" for k
  proof (cases "k = rt_nkoils s")
    case True
    moreover have "owner_ok c s (rt_nkoils s)" using assms by (simp add: lifecycle_ok_def)
    ultimately show ?thesis
      by (auto simp: koil_init_def Let_def owner_ok_def split: option.splits)
  next
    case False
    moreover have "owner_ok c s k" using assms by (simp add: lifecycle_ok_def)
    ultimately show ?thesis
      by (auto simp: koil_init_def Let_def owner_ok_def split: option.splits)
  qed
  then show ?thesis
    using assms by (auto simp: lifecycle_ok_def koil_init_def Let_def loop_accounted_def)
qed

lemma lifecycle_enter:
  assumes ok: "lifecycle_ok (c, s)" and k: "k < rt_nkoils s"
  shows "lifecycle_ok (snd (koil_enter k c s))"
proof (cases "c_running c \<noteq> None \<and> \<not> k_sync_in_async (rt_koils s k)")
  case True
  then show ?thesis using ok by (simp add: koil_simps)
next
  case False
  then have go: "c_running c = None \<or> k_sync_in_async (rt_koils s k)" by blast
  show ?thesis
  proof (cases "ambient_koil c")
    case (Some j)
    have "owner_ok c (upd_koil k (\<lambda>x. x\<lparr>k_running := True\<rparr>) s) i" if "owner_ok c s i" for i
      using that by (auto simp: owner_ok_def split: option.splits)
    with Some go ok show ?thesis
      by (auto simp: koil_simps lifecycle_ok_def loop_accounted_def)
  next
    case None
    let ?c = "set_var global_koil_loop (PyLoop (rt_nloops s)) (set_var global_koil (PyKoil k) c)"
    let ?s = "snd (snd (koil_enter k c s))"
    have idle: "k_loop (rt_koils s i) = None" for i
      using ok None by (auto simp: lifecycle_ok_def owner_ok_def split: option.splits)
    have "ambient_loop c = None" using ok None by (simp add: lifecycle_ok_def)
    with ok have stop: "l_closed (rt_loops s l) \<or> CbStop \<in> set (l_ready (rt_loops s l))"
      if "l < rt_nloops s" for l
      using that by (auto simp: lifecycle_ok_def loop_accounted_def)
    show ?thesis
      using None go k idle stop
      by (simp add: koil_enter_starts lifecycle_ok_def owner_ok_def loop_accounted_def less_Suc_eq
          split: option.splits)
        (simp add: get_threaded_loop_def Let_def)
  qed
qed

lemma lifecycle_exit:
  assumes ok: "lifecycle_ok (c, s)" and ex: "koil_exit k d c s = Some (r, c', s')"
  shows "lifecycle_ok (c', s')"
proof (cases "k_loop (rt_koils s k)")
  case None
  have "owner_ok c (upd_koil k (\<lambda>x. x\<lparr>k_running := False\<rparr>) s) i" if "owner_ok c s i" for i
    using that by (auto simp: owner_ok_def split: option.splits)
  with None ok ex show ?thesis
    by (auto simp: koil_simps lifecycle_ok_def loop_accounted_def)
next
  case (Some l)
  have "owner_ok c s k" using ok by (simp add: lifecycle_ok_def)
  with Some have l: "\<not> l_closed (rt_loops s l)" "k_loop_thread (rt_koils s k) = Some l"
    "ambient_koil c = Some k" "ambient_loop c = Some l"
    by (auto simp: owner_ok_def)
  obtain w alive where j: "join_loop_thread (rt_koils s k) d = Some (w, alive)"
    using ex Some l by (auto simp: koil_exit_def call_soon_threadsafe_open split: option.splits)
  have idle: "k_loop (rt_koils s i) = None" if "i \<noteq> k" for i
    using ok l(3) that by (auto simp: lifecycle_ok_def owner_ok_def split: option.splits)
  have acc: "l_closed (rt_loops s i) \<or> CbStop \<in> set (l_ready (rt_loops s i))"
    if "i < rt_nloops s" "i \<noteq> l" for i
    using ok l(4) that by (auto simp: lifecycle_ok_def loop_accounted_def)
  have c': "c' = set_var global_koil_loop PyNone (set_var global_koil PyNone c)"
    and s': "s' = (upd_koil k (\<lambda>x. x\<lparr>k_loop_thread := None, k_loop := None, k_running := False\<rparr>)
      (let s1 = upd_loop l (\<lambda>x. x\<lparr>l_ready := l_ready x @ [CbStop]\<rparr>) s
       in if alive then s1 else loop_thread_ended l s1))\<lparr>rt_now := rt_now s + w\<rparr>"
    using ex unfolding koil_exit_with_loop [OF Some l(2) l(1) j] by auto
  have "owner_ok c' s' i" for i
    using idle [of i] by (cases "i = k"; cases alive) (simp_all add: owner_ok_def c' s' Let_def)
  moreover have "loop_accounted c' s' i" if "i < rt_nloops s'" for i
    using that acc [of i]
    by (cases "i = l"; cases alive) (simp_all add: loop_accounted_def c' s' Let_def)
  ultimately show ?thesis by (auto simp: lifecycle_ok_def c')
qed

interpretation lifecycle: step_invariant koil_step lifecycle_ok
proof unfold_locales
  fix e :: koil_op and s :: "caller \<times> rt"
  assume ok: "lifecycle_ok s"
  obtain c w where s: "s = (c, w)" by fastforce
  show "lifecycle_ok (koil_step e s)"
    using ok unfolding s
    by (cases e) (auto simp: lifecycle_new lifecycle_enter intro: lifecycle_exit split: option.splits)
qed

subsection \<open>Properties\<close>

text \<open>
  C3: whatever one thread does with koils, in any order and nesting, with threads that end
  in time or not: the koil with a loop is the ambient one, its loop is open and the
  ambient loop, and every other loop ever started is closed or has been told to stop.
\<close>

theorem koil_lifecycle_invariant:
  assumes "ambient_koil c = None" and "ambient_loop c = None"
    and "rt_nloops s = 0" and "\<And>k. k_loop (rt_koils s k) = None"
  shows "lifecycle_ok (fold koil_step ops (c, s))"
proof (rule lifecycle.run_good)
  show "lifecycle_ok (c, s)"
    using assms by (simp add: lifecycle_ok_def owner_ok_def)
qed

theorem koil_lifecycle_invariant_witness:
  "lifecycle_ok (fold koil_step
     [NewKoil True True None True (Some 2), NewKoil True False None True (Some 1),
      EnterKoil 0, EnterKoil 1, ExitKoil 1 None, ExitKoil 0 None, EnterKoil 1]
     (init_caller, init_rt))"
  by (rule koil_lifecycle_invariant)
    (simp_all add: init_caller_def init_rt_def init_koil_def ambient_koil_def ambient_loop_def
      ctx_get_def)

text \<open>
  C10: \<open>__exit__\<close> returns, also when the loop's thread is wedged and never ends, and it
  takes at most \<open>cancel_timeout\<close> plus the shutdown join timeout.
\<close>

theorem koil_exit_bounded:
  assumes "k_cancel_timeout (rt_koils s k) = Some ct"
  shows "\<exists>r c' s'. koil_exit k d c s = Some (r, c', s') \<and>
    rt_now s' \<le> rt_now s + max 0 ct + max 0 (join_timeout (rt_koils s k))"
proof -
  obtain w alive where j: "join_loop_thread (rt_koils s k) d = Some (w, alive)"
    "w \<le> max 0 ct + max 0 (join_timeout (rt_koils s k))"
    using join_loop_thread_total [OF assms] by blast
  have "0 \<le> max 0 ct + max 0 (join_timeout (rt_koils s k))" by simp
  with j show ?thesis
    by (auto simp: koil_exit_def call_soon_threadsafe_def split: option.splits)
qed

theorem koil_exit_bounded_witness:
  "\<exists>r c' s'. koil_exit 0 None init_caller
       (init_rt\<lparr>rt_koils := (\<lambda>_. init_koil\<lparr>k_loop := Some 0, k_loop_thread := Some 0\<rparr>)\<rparr>) =
         Some (r, c', s') \<and>
     rt_now s' \<le> 7"
  using koil_exit_bounded
    [of "init_rt\<lparr>rt_koils := (\<lambda>_. init_koil\<lparr>k_loop := Some 0, k_loop_thread := Some 0\<rparr>)\<rparr>"
      0 2 None init_caller]
  by (simp add: init_rt_def init_koil_def join_timeout_def SHUTDOWN_JOIN_TIMEOUT_def)

text \<open>A koil inside its block, and after it.\<close>

definition entered :: "nat \<Rightarrow> nat \<Rightarrow> caller \<Rightarrow> 'z rt_scheme \<Rightarrow> bool" where
  "entered k l c s \<longleftrightarrow>
     ambient_koil c = Some k \<and> ambient_loop c = Some l \<and> k_loop (rt_koils s k) = Some l \<and>
     k_running (rt_koils s k) \<and> \<not> l_closed (rt_loops s l) \<and> th_alive (rt_threads s l)"

definition torn_down :: "nat \<Rightarrow> nat \<Rightarrow> caller \<Rightarrow> 'z rt_scheme \<Rightarrow> bool" where
  "torn_down k l c s \<longleftrightarrow>
     ambient_koil c = None \<and> ambient_loop c = None \<and> k_loop (rt_koils s k) = None \<and>
     \<not> k_running (rt_koils s k) \<and> l_closed (rt_loops s l) \<and> \<not> th_alive (rt_threads s l)"

text \<open>
  A \<open>with Koil():\<close> block outside any other. On entry there is a fresh open loop that is
  ambient; on exit, if the thread ends within the two timeouts, the loop is closed, its
  thread gone, the koil detached, and the context as before, koil's two variables cleared.
\<close>

lemma koil_with_block:
  assumes "ambient_koil c = None" and "c_running c = None \<or> k_sync_in_async (rt_koils s k)"
    and "k_cancel_timeout (rt_koils s k) = Some ct"
    and "0 \<le> t" and "t \<le> max 0 ct + max 0 (join_timeout (rt_koils s k))"
  shows "\<exists>c1 s1 c2 s2. koil_enter k c s = (Inr k, c1, s1) \<and> entered k (rt_nloops s) c1 s1 \<and>
    koil_exit k (Some t) c1 s1 = Some (Inr (), c2, s2) \<and> torn_down k (rt_nloops s) c2 s2 \<and>
    rt_now s2 = rt_now s + t \<and>
    (\<forall>v. v \<noteq> global_koil \<and> v \<noteq> global_koil_loop \<longrightarrow>
       ctx_get (c_vars c2) v = ctx_get (c_vars c) v)"
proof -
  let ?l = "rt_nloops s"
  let ?c1 = "fst (snd (koil_enter k c s))" and ?s1 = "snd (snd (koil_enter k c s))"
  note enter = koil_enter_starts [OF assms(1,2)]
  have k: "k_loop (rt_koils ?s1 k) = Some ?l" "k_loop_thread (rt_koils ?s1 k) = Some ?l"
    "\<not> l_closed (rt_loops ?s1 ?l)"
    by (simp_all add: enter)
  have join: "join_loop_thread (rt_koils ?s1 k) (Some t) = Some (t, False)"
    using assms(3-5)
    by (auto simp: enter join_loop_thread_def join_timeout_def max_def split: if_splits)
  have "entered k ?l ?c1 ?s1"
    by (simp add: entered_def enter, simp add: get_threaded_loop_def Let_def)
  moreover have "koil_enter k c s = (Inr k, ?c1, ?s1)" by (simp add: enter)
  moreover note koil_exit_with_loop [OF k join, of ?c1]
  moreover have "rt_now ?s1 = rt_now s" by (simp add: enter)
  ultimately show ?thesis
    by (intro exI conjI) (assumption | simp add: torn_down_def enter Let_def)+
qed

lemma koil_with_block_witness:
  "\<exists>c1 s1 c2 s2. koil_enter 0 init_caller init_rt = (Inr 0, c1, s1) \<and> entered 0 0 c1 s1 \<and>
     koil_exit 0 (Some 3) c1 s1 = Some (Inr (), c2, s2) \<and> torn_down 0 0 c2 s2 \<and> rt_now s2 = 3"
  using koil_with_block [of init_caller init_rt 0 2 3]
  by (simp add: init_caller_def init_rt_def init_koil_def ambient_koil_def ctx_get_def
      join_timeout_def SHUTDOWN_JOIN_TIMEOUT_def) metis

text \<open>
  Leaving a koil twice is safe: after an \<open>__exit__\<close> that returned normally, a second
  one, however the thread behaves, returns normally and changes nothing at all; in
  particular it does not touch the closed loop.
\<close>

lemma koil_exit_twice:
  assumes "koil_exit k d c s = Some (Inr (), c', s')"
  shows "koil_exit k d' c' s' = Some (Inr (), c', s')"
proof -
  have "k_loop (rt_koils s' k) = None" and "\<not> k_running (rt_koils s' k)"
    using assms by (auto simp: koil_exit_def split: option.splits sum.splits)
  then have "koil_exit k d' c' s' = Some (Inr (), c', upd_koil k (\<lambda>x. x\<lparr>k_running := False\<rparr>) s')"
    and "(\<lambda>x. x\<lparr>k_running := False\<rparr>) (rt_koils s' k) = rt_koils s' k"
    by (simp add: koil_exit_without_loop, cases "rt_koils s' k", simp)
  moreover from this(2) have "upd_koil k (\<lambda>x. x\<lparr>k_running := False\<rparr>) s' = s'"
    unfolding upd_koil_def by (metis fun_upd_triv rt.surjective rt.update_convs(6))
  ultimately show ?thesis by metis
qed

lemma koil_exit_twice_witness:
  "\<exists>c' s'. koil_exit 0 (Some 1) init_caller
       (init_rt\<lparr>rt_koils := (\<lambda>_. init_koil\<lparr>k_loop := Some 0, k_loop_thread := Some 0\<rparr>)\<rparr>)
         = Some (Inr (), c', s') \<and>
     koil_exit 0 None c' s' = Some (Inr (), c', s')"
proof -
  let ?s = "init_rt\<lparr>rt_koils := (\<lambda>_. init_koil\<lparr>k_loop := Some 0, k_loop_thread := Some 0\<rparr>)\<rparr>"
  have "\<exists>c' s'. koil_exit 0 (Some 1) init_caller ?s = Some (Inr (), c', s')"
    by (simp add: koil_exit_def call_soon_threadsafe_def init_rt_def init_koil_def
        join_loop_thread_def)
  then show ?thesis using koil_exit_twice by blast
qed

text \<open>
  C18: a \<open>with Koil():\<close> block inside another one shares the outer loop: entering and leaving
  it starts no loop, changes no loop and no other koil, and leaves the context alone, so
  the outer koil stays ambient.
\<close>

theorem koil_nested_block:
  assumes "ambient_koil c = Some j" and "k_loop (rt_koils s k) = None"
    and "c_running c = None \<or> k_sync_in_async (rt_koils s k)"
  shows "\<exists>s1 s2. koil_enter k c s = (Inr k, c, s1) \<and> koil_exit k d c s1 = Some (Inr (), c, s2) \<and>
    rt_loops s2 = rt_loops s \<and> rt_threads s2 = rt_threads s \<and> rt_nloops s2 = rt_nloops s \<and>
    rt_now s2 = rt_now s \<and> rt_koils s2 = (rt_koils s)(k := (rt_koils s k)\<lparr>k_running := False\<rparr>)"
  using assms by (simp add: koil_enter_nested koil_exit_without_loop)

theorem koil_nested_block_witness:
  "\<exists>s1 s2. koil_enter 1 \<lparr>c_vars = [(global_koil, PyKoil 0)], c_running = None\<rparr> init_rt
       = (Inr 1, \<lparr>c_vars = [(global_koil, PyKoil 0)], c_running = None\<rparr>, s1) \<and>
     koil_exit 1 None \<lparr>c_vars = [(global_koil, PyKoil 0)], c_running = None\<rparr> s1
       = Some (Inr (), \<lparr>c_vars = [(global_koil, PyKoil 0)], c_running = None\<rparr>, s2) \<and>
     rt_loops s2 = rt_loops init_rt"
  using koil_nested_block [of "\<lparr>c_vars = [(global_koil, PyKoil 0)], c_running = None\<rparr>" 0 init_rt 1 None]
  by (auto simp: ambient_koil_def ctx_get_def init_rt_def init_koil_def)

text \<open>
  The shutdown on the loop's thread closes the loop on every path, also when
  \<open>run_forever\<close>, the gather or the shutdown of the generators raises; and unless the gather
  itself raises, exactly the exceptions of the outstanding tasks that ended with one are
  reported, in order, while cancelled tasks are not.
\<close>

lemma shutdown_closes_loop:
  "case run_threaded_event_loop l forever gathered tasks asyncgens s of (raised, reports, s') \<Rightarrow>
     rt_loops s' = (rt_loops s)(l := (rt_loops s l)\<lparr>l_closed := True\<rparr>) \<and>
     map TaskRaised reports = (if gathered = None then filter (\<lambda>t. t \<in> range TaskRaised) tasks else []) \<and>
     (raised = None \<longleftrightarrow> forever = None \<and> gathered = None \<and> asyncgens = None)"
proof -
  have "map TaskRaised (shutdown_reports tasks) = filter (\<lambda>t. t \<in> range TaskRaised) tasks"
    by (induction tasks rule: shutdown_reports.induct) auto
  then show ?thesis
    by (auto simp: run_threaded_event_loop_def Let_def split: option.splits)
qed

text \<open>
  C19: an \<open>async with Koil()\<close> block. It makes the running loop the ambient loop but never
  becomes the ambient koil, and on leaving it the ambient koil is cleared, even one that an
  enclosing block had set, while the ambient loop stays set.
\<close>

theorem koil_async_block:
  assumes "c_running c = Some l"
  shows "case koil_aenter k c s of (c1, s1) \<Rightarrow>
    ambient_koil c1 = ambient_koil c \<and> ambient_loop c1 = Some l \<and> k_loop (rt_koils s1 k) = Some l \<and>
    (case koil_aexit k c1 s1 of (c2, s2) \<Rightarrow>
       ambient_koil c2 = None \<and> ambient_loop c2 = Some l \<and> s2 = s1)"
  using assms by (simp add: koil_aenter_def koil_aexit_def)

theorem koil_async_block_witness:
  "case koil_aenter 1 \<lparr>c_vars = [(global_koil, PyKoil 0)], c_running = Some 4\<rparr> init_rt of (c1, s1) \<Rightarrow>
     ambient_koil c1 = Some 0 \<and>
     (case koil_aexit 1 c1 s1 of (c2, s2) \<Rightarrow> ambient_koil c2 = None \<and> ambient_loop c2 = Some 4)"
  using koil_async_block [of "\<lparr>c_vars = [(global_koil, PyKoil 0)], c_running = Some 4\<rparr>" 4 1 init_rt]
  by (simp add: ambient_koil_def ctx_get_def split: prod.splits)

end
