(* ===== verification/Koil_Race.thy ===== *)
theory Koil_Race
  imports Koil_Loop
begin

section \<open>The race on the loop (koil/utils.py: passed\_with\_context)\<close>

text \<open>
  What \<open>run_async_sharing_context\<close> and \<open>iterate_async_sharing_context\<close> start on the loop: the
  task \<open>passed_with_context\<close>, which races the work against two cancel events and a timer,
  tidies up the losers and concludes. The task is a state machine. Its steps are the points
  at which asyncio resumes it and the completions of the tasks it started; which of them
  happens when, how the work ends and what it does to its context is up to the environment.
  \<open>race_next\<close> is the executable step, \<open>race_step\<close> the same as a relation, and the invariants
  are proved over everything \<open>race_reach\<close> reaches.
\<close>

subsection \<open>Jobs\<close>

text \<open>The four tasks that take part: \<open>future_t\<close>, the two cancel waiters and the timeout waiter.\<close>

datatype waiter = Work | OwnCancel | AmbientCancel | TimeoutWaiter

text \<open>
  The signals of \<open>TaskSignalProtocol\<close> and \<open>IteratorSignalProtocol\<close>; a slot connected to one
  may raise.
\<close>

datatype signal =
    SigReturned pyval ctx
  | SigErrored exn
  | SigCancelled exn
  | SigNext pyval ctx
  | SigDone

text \<open>
  What \<open>passed_with_context\<close> closes over: the loop, the copied context \<open>ctxs\<close>,
  \<open>submitting_koil\<close>, the two cancel events, the timeout, the signals, which of the two
  functions defined it, and what the call \<open>coro(*args)\<close> itself raises, if it does not accept
  its arguments.
\<close>

record job =
  j_loop :: nat
  j_ctx :: ctx
  j_koil :: "nat option"
  j_own :: nat
  j_ambient :: "nat option"
  j_timeout :: "time option"
  j_signals :: "(signal \<Rightarrow> exn option) option"
  j_iterates :: bool
  j_call_raises :: "exn option"

text \<open>
  \<open>Tidying todo\<close>: the head of \<open>todo\<close> has been told to cancel and is being awaited. \<open>Ended\<close>
  holds how the task ended.
\<close>

datatype phase = NotStarted | Racing | Tidying "waiter list" | Ended task_end

text \<open>
  \<open>r_ctx\<close> is the context of the work's task, \<open>r_since\<close> the time the current wait began,
  \<open>r_emitted\<close> the signals emitted so far.
\<close>

record race =
  r_job :: job
  r_phase :: phase
  r_done :: "waiter \<Rightarrow> task_end option"
  r_finished :: "waiter list"
  r_ack :: bool
  r_ctx :: ctx
  r_since :: time
  r_emitted :: "signal list"

definition new_race :: "job \<Rightarrow> race" where
  "new_race j =
     \<lparr>r_job = j, r_phase = NotStarted, r_done = (\<lambda>_. None), r_finished = [], r_ack = True,
      r_ctx = j_ctx j, r_since = 0, r_emitted = []\<rparr>"

subsection \<open>Parts of the task\<close>

definition CANCEL_GRACE_FALLBACK :: time where
  "CANCEL_GRACE_FALLBACK = 10"

definition cancel_grace :: "nat option \<Rightarrow> 'z rt_scheme \<Rightarrow> time" where
  "cancel_grace koil s =
     (let v = (case koil of Some k \<Rightarrow> k_cancel_timeout (rt_koils s k) | None \<Rightarrow> None)
      in case v of None \<Rightarrow> CANCEL_GRACE_FALLBACK | Some t \<Rightarrow> t)"

text \<open>\<open>race\<close>: the tasks that are waited for.\<close>

definition race_tasks :: "job \<Rightarrow> waiter list" where
  "race_tasks j =
     [Work, OwnCancel] @ (if j_ambient j = None then [] else [AmbientCancel]) @
     (if j_timeout j = None then [] else [TimeoutWaiter])"

text \<open>
  How a task ends whose coroutine raises or returns: a task that lets asyncio's
  \<open>CancelledError\<close> pass counts as cancelled.
\<close>

definition settle :: "exn + pyval \<Rightarrow> task_end" where
  "settle r =
     (case r of
        Inr v \<Rightarrow> TaskReturned v
      | Inl e \<Rightarrow> if catches [AsyncioCancelledError] e then TaskCancelled else TaskRaised e)"

text \<open>
  The end of \<open>context_future\<close>: its frame, with the line it was at, is on the traceback of what
  the work raises.
\<close>

definition work_line :: "job \<Rightarrow> int" where
  "work_line j = (if j_iterates j then 631 else 468)"

definition work_end :: "job \<Rightarrow> int \<Rightarrow> exn + pyval \<Rightarrow> task_end" where
  "work_end j line r =
     (case (case j_call_raises j of None \<Rightarrow> r | Some x \<Rightarrow> Inl x) of
        Inl e \<Rightarrow> settle (Inl (unwind (entry ''koil.utils'' ''context_future'' True line) e))
      | Inr v \<Rightarrow> settle (Inr (if j_iterates j then PyNone else v)))"

text \<open>\<open>if signals: signals.x.emit(...)\<close>: what was emitted, and what a slot raised.\<close>

definition emit :: "job \<Rightarrow> signal \<Rightarrow> signal list \<times> exn option" where
  "emit j sg = (case j_signals j of None \<Rightarrow> ([], None) | Some slots \<Rightarrow> ([sg], slots sg))"

text \<open>
  \<open>signals.x.emit(error); raise outcome\<close>: an exception of a slot replaces the outcome. The
  frame of \<open>passed_with_context\<close> is on the traceback of what leaves it.
\<close>

definition passed_entry :: "int \<Rightarrow> tb_entry" where
  "passed_entry line = entry ''koil.utils'' ''passed_with_context'' True line"

definition emit_then ::
    "job \<Rightarrow> int \<Rightarrow> signal \<Rightarrow> int \<Rightarrow> exn + pyval \<Rightarrow> task_end \<times> signal list" where
  "emit_then j emit_line sg raise_line outcome =
     (case emit j sg of
        (sent, Some x) \<Rightarrow> (settle (Inl (unwind (passed_entry emit_line) x)), sent)
      | (sent, None) \<Rightarrow>
          (case outcome of
             Inl e \<Rightarrow> (settle (Inl (unwind (passed_entry raise_line) e)), sent)
           | Inr v \<Rightarrow> (settle (Inr v), sent)))"

text \<open>A new exception object: its traceback is empty until it is raised.\<close>

definition make_exn :: "exn_class \<Rightarrow> string \<Rightarrow> exn" where
  "make_exn c m = Exn c m [] None None"

text \<open>The context of the task is the one it was submitted with.\<close>

definition task_caller :: "job \<Rightarrow> caller" where
  "task_caller j = \<lparr>c_vars = j_ctx j, c_running = Some (j_loop j)\<rparr>"

subsection \<open>The conclusion\<close>

text \<open>
  What follows the tidying in \<open>run_async_sharing_context\<close>; \<open>rewrite\<close> is what
  \<open>should_rewrite()\<close> answers there. \<open>future_t.exception()\<close> of a cancelled task raises its
  \<open>CancelledError\<close>, before any signal.
\<close>

definition conclude_run ::
    "bool \<Rightarrow> job \<Rightarrow> waiter list \<Rightarrow> task_end option \<Rightarrow> ctx \<Rightarrow> bool \<Rightarrow> task_end \<times> signal list" where
  "conclude_run rewrite j finished work ctxt ack =
     (if Work \<in> set finished then
        (case work of
           Some (TaskRaised e) \<Rightarrow>
             let e' = (if rewrite then prune_exn False e else e)
             in emit_then j 523 (SigErrored e') 525 (Inl e')
         | Some (TaskReturned v) \<Rightarrow> emit_then j 532 (SigReturned v ctxt) 536 (Inr v)
         | _ \<Rightarrow> (TaskCancelled, []))
      else if TimeoutWaiter \<in> set finished then
        let error = make_exn KoilTimeoutError
              (if ack then ''Task did not complete in time; it was cancelled.''
               else ''Task did not complete in time and did not acknowledge cancellation.'')
        in emit_then j 556 (SigErrored error) 558 (Inl error)
      else
        let error = make_exn AsyncioCancelledError ''Future was cancelled''
        in emit_then j 564 (SigCancelled error) 566 (Inl error))"

text \<open>The same part of \<open>iterate_async_sharing_context\<close>.\<close>

definition conclude_iterate ::
    "bool \<Rightarrow> job \<Rightarrow> waiter list \<Rightarrow> task_end option \<Rightarrow> bool \<Rightarrow> task_end \<times> signal list" where
  "conclude_iterate rewrite j finished work ack =
     (if Work \<in> set finished then
        (case work of
           Some (TaskRaised e) \<Rightarrow>
             let e' = (if rewrite then prune_exn False e else e)
             in emit_then j 679 (SigErrored e') 681 (Inl e')
         | Some (TaskReturned v) \<Rightarrow> emit_then j 688 SigDone 692 (Inr v)
         | _ \<Rightarrow> (TaskCancelled, []))
      else if TimeoutWaiter \<in> set finished then
        let timeout_error = make_exn KoilTimeoutError
              (if ack then ''Generator did not finish in time; it was cancelled.''
               else ''Generator did not finish in time and did not acknowledge cancellation.'')
        in emit_then j 708 (SigErrored timeout_error) 710 (Inl timeout_error)
      else
        let error = make_exn CancelledError ''Future was cancelled''
        in emit_then j 715 (SigCancelled error) 717 (Inl error))"

definition verdict :: "bool \<Rightarrow> race \<Rightarrow> task_end \<times> signal list" where
  "verdict rewrite r =
     (let j = r_job r in
      if j_iterates j then conclude_iterate rewrite j (r_finished r) (r_done r Work) (r_ack r)
      else conclude_run rewrite j (r_finished r) (r_done r Work) (r_ctx r) (r_ack r))"

definition conclude :: "'z rt_scheme \<Rightarrow> race \<Rightarrow> race" where
  "conclude s r =
     (let (outcome, sent) = verdict (should_rewrite (task_caller (r_job r)) s) r
      in r\<lparr>r_phase := Ended outcome, r_emitted := r_emitted r @ sent\<rparr>)"

text \<open>
  \<open>for untask in unfinished\<close>: the next one is told to cancel and awaited; after the last one
  the task concludes without waiting again.
\<close>

definition tidy :: "'z rt_scheme \<Rightarrow> waiter list \<Rightarrow> race \<Rightarrow> race" where
  "tidy s todo r =
     (case todo of
        [] \<Rightarrow> conclude s r
      | _ \<Rightarrow> r\<lparr>r_phase := Tidying todo, r_since := rt_now s\<rparr>)"

text \<open>
  \<open>try: await untask\<close> on an ended task: what happens next depends on how it ended. An
  exception that neither clause catches ends the task at once; when the deadline had
  passed, it comes through \<open>asyncio.wait_for\<close>.
\<close>

definition timed_out :: "race \<Rightarrow> bool" where
  "timed_out r = (TimeoutWaiter \<in> set (r_finished r))"

definition await_frames :: "race \<Rightarrow> exn \<Rightarrow> exn" where
  "await_frames r e =
     (let n = (if j_iterates (r_job r) then 159 else 0) in
      if timed_out r
      then unwind (passed_entry (503 + n)) (unwind (entry ''asyncio.tasks'' ''wait_for'' False 0) e)
      else unwind (passed_entry (505 + n)) e)"

definition awaited :: "'z rt_scheme \<Rightarrow> waiter list \<Rightarrow> task_end \<Rightarrow> race \<Rightarrow> race" where
  "awaited s todo t r =
     (case t of
        TaskReturned v \<Rightarrow> tidy s todo r
      | TaskCancelled \<Rightarrow> tidy s todo r
      | TaskRaised e \<Rightarrow>
          if catches [TimeoutError] e then tidy s todo (r\<lparr>r_ack := False\<rparr>)
          else r\<lparr>r_phase := Ended (settle (Inl (await_frames r e)))\<rparr>)"

subsection \<open>Steps\<close>

text \<open>
  The events: the loop starts the task; the generator yields, the work ends, with the
  variables it set since; an event waiter sees its event; the timer runs out;
  \<open>asyncio.wait\<close> returns (with the unfinished tasks in the order of iteration of a set, which
  is arbitrary); the awaited loser has ended; the grace runs out; and the shutdown of the
  loop cancels the task.
\<close>

datatype race_ev =
    EvStart
  | EvNext pyval ctx
  | EvWork "exn + pyval" ctx
  | EvOwn
  | EvAmbient
  | EvTimer
  | EvWake "waiter list"
  | EvTidy
  | EvGrace
  | EvShutdown

definition work_running :: "race \<Rightarrow> bool" where
  "work_running r =
     (r_done r Work = None \<and> (case r_phase r of Racing \<Rightarrow> True | Tidying _ \<Rightarrow> True | _ \<Rightarrow> False))"

definition finish_task :: "waiter \<Rightarrow> task_end \<Rightarrow> race \<Rightarrow> race" where
  "finish_task w t r = r\<lparr>r_done := (r_done r)(w \<mapsto> t)\<rparr>"

definition unfinished :: "race \<Rightarrow> waiter list" where
  "unfinished r = filter (\<lambda>w. r_done r w = None) (race_tasks (r_job r))"

text \<open>
  The shutdown cancels the task wherever it waits. At \<open>asyncio.wait\<close> the \<open>CancelledError\<close>
  passes; at an \<open>await untask\<close> it is swallowed: the loop goes on with the next loser, at once
  if the awaited one has ended or is shielded, else once that one has ended.
\<close>

definition shutdown :: "'z rt_scheme \<Rightarrow> race \<Rightarrow> race option" where
  "shutdown s r =
     (case r_phase r of
        NotStarted \<Rightarrow> Some (r\<lparr>r_phase := Ended TaskCancelled\<rparr>)
      | Racing \<Rightarrow> Some (r\<lparr>r_phase := Ended TaskCancelled\<rparr>)
      | Tidying (w # todo) \<Rightarrow>
          if w = Work \<and> (r_done r Work \<noteq> None \<or> timed_out r) then Some (tidy s todo r) else None
      | _ \<Rightarrow> None)"

fun race_next :: "'z rt_scheme \<Rightarrow> race_ev \<Rightarrow> race \<Rightarrow> race option" where
  "race_next s EvStart r =
     (if r_phase r = NotStarted
      then Some (r\<lparr>r_phase := Racing, r_ctx := set_items (j_ctx (r_job r)) (j_ctx (r_job r)),
                   r_since := rt_now s\<rparr>)
      else None)"
| "race_next s (EvNext v sets) r =
     (if work_running r \<and> j_iterates (r_job r) then
        let newcontext = set_items sets (r_ctx r);
            (sent, x) = emit (r_job r) (SigNext v newcontext);
            r' = r\<lparr>r_ctx := newcontext, r_emitted := r_emitted r @ sent\<rparr>
        in Some (case x of None \<Rightarrow> r' | Some e \<Rightarrow> finish_task Work (work_end (r_job r) 634 (Inl e)) r')
      else None)"
| "race_next s (EvWork res sets) r =
     (if work_running r
      then Some (finish_task Work (work_end (r_job r) (work_line (r_job r)) res) (r\<lparr>r_ctx := set_items sets (r_ctx r)\<rparr>))
      else None)"
| "race_next s EvOwn r =
     (if r_phase r = Racing \<and> r_done r OwnCancel = None \<and> event_is_set (j_own (r_job r)) s
      then Some (finish_task OwnCancel (TaskReturned (PyBool True)) r) else None)"
| "race_next s EvAmbient r =
     (case j_ambient (r_job r) of
        None \<Rightarrow> None
      | Some e \<Rightarrow>
          if r_phase r = Racing \<and> r_done r AmbientCancel = None \<and> event_is_set e s
          then Some (finish_task AmbientCancel (TaskReturned (PyBool True)) r) else None)"
| "race_next s EvTimer r =
     (case j_timeout (r_job r) of
        None \<Rightarrow> None
      | Some t \<Rightarrow>
          if r_phase r = Racing \<and> r_done r TimeoutWaiter = None \<and> r_since r + t \<le> rt_now s
          then Some (finish_task TimeoutWaiter (TaskReturned PyNone) r) else None)"
| "race_next s (EvWake order) r =
     (if r_phase r = Racing \<and> unfinished r \<noteq> race_tasks (r_job r) \<and>
         distinct order \<and> set order = set (unfinished r)
      then Some (tidy s order
             (r\<lparr>r_finished := filter (\<lambda>w. r_done r w \<noteq> None) (race_tasks (r_job r))\<rparr>))
      else None)"
| "race_next s EvTidy r =
     (case r_phase r of
        Tidying (w # todo) \<Rightarrow>
          (if w = Work
           then (case r_done r Work of None \<Rightarrow> None | Some t \<Rightarrow> Some (awaited s todo t r))
           else Some (awaited s todo TaskCancelled r))
      | _ \<Rightarrow> None)"
| "race_next s EvGrace r =
     (case r_phase r of
        Tidying (w # todo) \<Rightarrow>
          if w = Work \<and> timed_out r \<and> r_done r Work = None \<and>
             r_since r + cancel_grace (j_koil (r_job r)) s \<le> rt_now s
          then Some (tidy s todo (r\<lparr>r_ack := False\<rparr>)) else None
      | _ \<Rightarrow> None)"
| "race_next s EvShutdown r = shutdown s r"

subsection \<open>The invariant of the race\<close>

text \<open>The signals that announce an end; \<open>next\<close> does not.\<close>

definition terminal :: "signal \<Rightarrow> bool" where
  "terminal sg = (case sg of SigNext v c \<Rightarrow> False | _ \<Rightarrow> True)"

definition terminals :: "race \<Rightarrow> signal list" where
  "terminals r = filter terminal (r_emitted r)"

text \<open>
  Why the task may have ended: it was shut down before the race was decided; it concluded;
  or the work, told to cancel, raised something else while it unwound.
\<close>

definition ended_ok :: "race \<Rightarrow> task_end \<Rightarrow> bool" where
  "ended_ok r t \<longleftrightarrow>
     (t = TaskCancelled \<and> r_finished r = [] \<and> terminals r = []) \<or>
     (r_finished r \<noteq> [] \<and> (\<exists>b. verdict b r = (t, terminals r))) \<or>
     (r_finished r \<noteq> [] \<and> Work \<notin> set (r_finished r) \<and> terminals r = [] \<and>
        (\<exists>e. r_done r Work = Some (TaskRaised e) \<and> \<not> catches [TimeoutError] e \<and>
             t = settle (Inl (await_frames r e))))"

definition phase_ok :: "race \<Rightarrow> bool" where
  "phase_ok r \<longleftrightarrow>
     (case r_phase r of
        NotStarted \<Rightarrow> r_finished r = [] \<and> r_emitted r = [] \<and> r_done r = (\<lambda>_. None)
      | Racing \<Rightarrow> r_finished r = [] \<and> terminals r = []
      | Tidying todo \<Rightarrow>
          terminals r = [] \<and> todo \<noteq> [] \<and> distinct todo \<and> r_finished r \<noteq> [] \<and>
          set todo \<inter> set (r_finished r) = {}
      | Ended t \<Rightarrow> ended_ok r t)"

definition tasks_ok :: "race \<Rightarrow> bool" where
  "tasks_ok r \<longleftrightarrow>
     (\<forall>w \<in> set (r_finished r). r_done r w \<noteq> None) \<and>
     (\<forall>w. r_done r w \<noteq> None \<longrightarrow> w \<in> set (race_tasks (r_job r))) \<and>
     (case r_phase r of
        Tidying todo \<Rightarrow> set todo \<subseteq> set (race_tasks (r_job r))
      | _ \<Rightarrow> True)"

definition race_sys :: "'z rt_scheme \<times> race_ev \<Rightarrow> race \<Rightarrow> race option" where
  "race_sys = (\<lambda>(s, ev). race_next s ev)"

lemma terminals_upd [simp]:
  "terminals (finish_task w t r) = terminals r"
  "terminals (r\<lparr>r_phase := p\<rparr>) = terminals r" "terminals (r\<lparr>r_ack := a\<rparr>) = terminals r"
  "terminals (r\<lparr>r_since := n\<rparr>) = terminals r" "terminals (r\<lparr>r_ctx := c\<rparr>) = terminals r"
  "terminals (r\<lparr>r_finished := f\<rparr>) = terminals r"
  "terminals (r\<lparr>r_emitted := es\<rparr>) = filter terminal es"
  by (simp_all add: terminals_def finish_task_def)

lemma verdict_upd [simp]:
  "verdict b (r\<lparr>r_phase := p\<rparr>) = verdict b r" "verdict b (r\<lparr>r_emitted := es\<rparr>) = verdict b r"
  by (simp_all add: verdict_def Let_def)

lemma finish_task_simps [simp]:
  "r_phase (finish_task w t r) = r_phase r" "r_finished (finish_task w t r) = r_finished r"
  "r_job (finish_task w t r) = r_job r" "r_emitted (finish_task w t r) = r_emitted r"
  "r_ack (finish_task w t r) = r_ack r" "r_ctx (finish_task w t r) = r_ctx r"
  "r_done (finish_task w t r) = (r_done r)(w \<mapsto> t)"
  by (simp_all add: finish_task_def)

lemma emit_then_terminal: "terminal sg \<Longrightarrow> emit_then j l sg l' res = (t, sent) \<Longrightarrow> filter terminal sent = sent"
  by (auto simp: emit_then_def emit_def split: option.splits sum.splits)

lemma verdict_terminal: "verdict b r = (t, sent) \<Longrightarrow> filter terminal sent = sent"
  by (auto simp: verdict_def conclude_run_def conclude_iterate_def Let_def terminal_def
      dest: emit_then_terminal [rotated] split: if_splits option.splits task_end.splits)

text \<open>The tasks a race is decided by, and the phases of the pieces of a step.\<close>

lemma phase_ok_tidy:
  assumes "terminals r = []" and "r_finished r \<noteq> []" and "distinct todo"
    and "set todo \<inter> set (r_finished r) = {}"
  shows "phase_ok (tidy s todo r)"
proof (cases todo)
  case Nil
  obtain t sent where v: "verdict (should_rewrite (task_caller (r_job r)) s) r = (t, sent)"
    by fastforce
  have "filter terminal (r_emitted r) = []" using assms(1) by (simp add: terminals_def)
  with v Nil assms(2) verdict_terminal [OF v] show ?thesis
    by (auto simp: tidy_def conclude_def phase_ok_def ended_ok_def)
next
  case (Cons w ws)
  with assms show ?thesis by (simp add: tidy_def phase_ok_def)
qed

lemma phase_ok_awaited:
  assumes "terminals r = []" and "r_finished r \<noteq> []" and "distinct todo"
    and "set todo \<inter> set (r_finished r) = {}"
    and "\<And>e. t = TaskRaised e \<Longrightarrow> r_done r Work = Some t \<and> Work \<notin> set (r_finished r)"
  shows "phase_ok (awaited s todo t r)"
proof -
  have "phase_ok (r\<lparr>r_phase := Ended (settle (Inl (await_frames r e)))\<rparr>)"
    if "t = TaskRaised e" "\<not> catches [TimeoutError] e" for e
    using that assms by (auto simp: phase_ok_def ended_ok_def await_frames_def timed_out_def)
  with assms show ?thesis
    by (simp add: awaited_def phase_ok_tidy split: task_end.splits)
qed

text \<open>
  A step is one of five: the start; the work going on or ending; a waiter that ends during
  the race; the decision; and a loser that is done with. The rule splits a step into them.
\<close>

lemma work_running_phase: "work_running r \<Longrightarrow> r_done r Work = None \<and>
   (r_phase r = Racing \<or> (\<exists>todo. r_phase r = Tidying todo))"
  by (auto simp: work_running_def split: phase.splits)

lemma phase_ok_same:
  assumes "phase_ok r" and "r_phase r = Racing \<or> (\<exists>todo. r_phase r = Tidying todo)"
    and "r_phase r' = r_phase r" and "r_finished r' = r_finished r" and "terminals r' = terminals r"
  shows "phase_ok r'"
  using assms by (auto simp: phase_ok_def)

lemma phase_okD:
  assumes "phase_ok r"
  shows "r_phase r = Racing \<Longrightarrow> r_finished r = [] \<and> terminals r = []"
    and "r_phase r = Tidying todo \<Longrightarrow> terminals r = [] \<and> distinct todo \<and> r_finished r \<noteq> [] \<and>
      set todo \<inter> set (r_finished r) = {}"
  using assms by (simp_all add: phase_ok_def)

lemma race_next_phase_ok:
  assumes ok: "phase_ok r" and st: "race_next s ev r = Some r'"
  shows "phase_ok r'"
proof (cases ev)
  case EvStart
  with ok st show ?thesis by (auto simp: phase_ok_def terminals_def split: if_splits)
next
  case (EvNext v sets)
  with st have r: "r_phase r = Racing \<or> (\<exists>todo. r_phase r = Tidying todo)"
    by (auto dest: work_running_phase split: if_splits)
  have "terminals r' = terminals r" "r_phase r' = r_phase r" "r_finished r' = r_finished r"
    using EvNext st by (auto simp: emit_def Let_def terminals_def terminal_def split: if_splits option.splits)
  with ok r show ?thesis by (auto intro: phase_ok_same)
next
  case (EvWork res sets)
  with ok st show ?thesis
    by (auto dest!: work_running_phase intro: phase_ok_same split: if_splits)
next
  case (EvWake order)
  with st phase_okD(1) [OF ok] show ?thesis
    by (auto simp: unfinished_def filter_empty_conv filter_id_conv split: if_splits
        intro!: phase_ok_tidy)
next
  case EvTidy
  then obtain w todo where ph: "r_phase r = Tidying (w # todo)"
    using st by (auto split: phase.splits list.splits)
  with EvTidy phase_okD(2) [OF ok ph] st show ?thesis
    by (auto split: if_splits option.splits intro!: phase_ok_awaited)
next
  case EvGrace
  with phase_okD(2) [OF ok] st show ?thesis
    by (auto split: if_splits phase.splits list.splits intro!: phase_ok_tidy)
next
  case EvShutdown
  then consider (early) "r_phase r = NotStarted \<or> r_phase r = Racing"
      "r' = r\<lparr>r_phase := Ended TaskCancelled\<rparr>"
    | (tidying) w todo where "r_phase r = Tidying (w # todo)" "r' = tidy s todo r"
    using st by (auto simp: shutdown_def split: if_splits phase.splits list.splits)
  then show ?thesis
  proof cases
    case early
    with ok show ?thesis by (auto simp: phase_ok_def ended_ok_def terminals_def)
  next
    case tidying
    with phase_okD(2) [OF ok tidying(1)] show ?thesis by (auto intro!: phase_ok_tidy)
  qed
qed (use ok st in \<open>auto intro: phase_ok_same split: if_splits option.splits\<close>)

lemma tidy_same [simp]:
  "r_finished (tidy s todo r) = r_finished r" "r_done (tidy s todo r) = r_done r"
  "r_job (tidy s todo r) = r_job r" "r_ctx (tidy s todo r) = r_ctx r"
  by (simp_all add: tidy_def conclude_def split: list.splits prod.splits)

lemma awaited_same [simp]:
  "r_finished (awaited s todo t r) = r_finished r" "r_done (awaited s todo t r) = r_done r"
  "r_job (awaited s todo t r) = r_job r" "r_ctx (awaited s todo t r) = r_ctx r"
  by (simp_all add: awaited_def split: task_end.splits)

lemma tidy_phase: "r_phase (tidy s todo r) = Tidying ws \<Longrightarrow> ws = todo"
  by (auto simp: tidy_def conclude_def split: list.splits prod.splits)

lemma awaited_phase: "r_phase (awaited s todo t r) = Tidying ws \<Longrightarrow> ws = todo"
  by (auto simp: awaited_def split: task_end.splits if_splits dest: tidy_phase)

lemma race_next_job: "race_next s ev r = Some r' \<Longrightarrow> r_job r' = r_job r"
  by (cases ev)
    (auto simp: Let_def shutdown_def split: if_splits option.splits phase.splits list.splits prod.splits)

lemma race_next_done: "race_next s ev r = Some r' \<Longrightarrow> r_done r w = Some t \<Longrightarrow> r_done r' w = Some t"
  by (cases ev)
    (auto simp: Let_def shutdown_def work_running_def
      split: if_splits option.splits phase.splits list.splits prod.splits)

lemma race_next_done_tasks:
  "race_next s ev r = Some r' \<Longrightarrow> r_done r' w \<noteq> None \<Longrightarrow>
   r_done r w \<noteq> None \<or> w \<in> set (race_tasks (r_job r))"
  by (cases ev)
    (auto simp: Let_def shutdown_def race_tasks_def
      split: if_splits option.splits phase.splits list.splits prod.splits)

lemma race_next_finished:
  "race_next s ev r = Some r' \<Longrightarrow> r_finished r' = r_finished r \<or>
     (r_phase r = Racing \<and> r_finished r' = filter (\<lambda>w. r_done r' w \<noteq> None) (race_tasks (r_job r')))"
  by (cases ev)
    (auto simp: Let_def shutdown_def
      split: if_splits option.splits phase.splits list.splits prod.splits)

lemma race_next_todo:
  "race_next s ev r = Some r' \<Longrightarrow> r_phase r' = Tidying ws \<Longrightarrow> tasks_ok r \<Longrightarrow>
   set ws \<subseteq> set (race_tasks (r_job r))"
  by (cases ev)
    (auto simp: Let_def shutdown_def tasks_ok_def unfinished_def
      split: if_splits option.splits phase.splits list.splits prod.splits
      dest!: tidy_phase awaited_phase)

lemma race_next_tasks_ok:
  assumes ok: "tasks_ok r" and st: "race_next s ev r = Some r'"
  shows "tasks_ok r'"
proof -
  have "\<forall>w \<in> set (r_finished r'). r_done r' w \<noteq> None"
    using race_next_finished [OF st] race_next_done [OF st] ok by (fastforce simp: tasks_ok_def)
  moreover have "\<forall>w. r_done r' w \<noteq> None \<longrightarrow> w \<in> set (race_tasks (r_job r'))"
    using race_next_done_tasks [OF st] ok race_next_job [OF st] by (simp add: tasks_ok_def) blast
  ultimately show ?thesis
    using race_next_todo [OF st _ ok] race_next_job [OF st]
    by (simp add: tasks_ok_def split: phase.splits)
qed

text \<open>The work's task never ends with asyncio's \<open>CancelledError\<close> as an exception.\<close>

definition work_ok :: "race \<Rightarrow> bool" where
  "work_ok r \<longleftrightarrow> (\<forall>e. r_done r Work = Some (TaskRaised e) \<longrightarrow> \<not> catches [AsyncioCancelledError] e)"

lemma work_end_raised: "work_end j n res = TaskRaised e \<Longrightarrow> \<not> catches [AsyncioCancelledError] e"
  by (auto simp: work_end_def settle_def split: sum.splits if_splits option.splits)

lemma race_next_work_ok: "work_ok r \<Longrightarrow> race_next s ev r = Some r' \<Longrightarrow> work_ok r'"
  by (cases ev)
    (auto simp: work_ok_def Let_def shutdown_def dest: work_end_raised
      split: if_splits option.splits phase.splits list.splits prod.splits)

interpretation race: guarded_invariant race_sys "\<lambda>r. phase_ok r \<and> tasks_ok r \<and> work_ok r"
  by unfold_locales
    (auto simp: race_sys_def intro: race_next_phase_ok race_next_tasks_ok race_next_work_ok
      split: prod.splits)

lemma new_race_ok: "phase_ok (new_race j) \<and> tasks_ok (new_race j) \<and> work_ok (new_race j)"
  by (simp add: new_race_def phase_ok_def tasks_ok_def work_ok_def)

lemma reach_ended:
  assumes "reach race_sys (new_race j) r" and "r_phase r = Ended t"
  shows "ended_ok r t"
  using race.reach_good [OF assms(1) new_race_ok] assms(2) by (simp add: phase_ok_def)

lemma reach_job: "reach race_sys r0 r \<Longrightarrow> r_job r = r_job r0"
  by (induction rule: reach.induct) (auto simp: race_sys_def dest: race_next_job)

lemmas reach_race_ok = race.reach_good [OF _ new_race_ok]

subsection \<open>Who wins\<close>

text \<open>Slots that do not raise; what a signal says about the end of the task.\<close>

definition slots_quiet :: "job \<Rightarrow> bool" where
  "slots_quiet j \<longleftrightarrow> (\<forall>slots sg. j_signals j = Some slots \<longrightarrow> slots sg = None)"

definition if_connected :: "job \<Rightarrow> signal \<Rightarrow> signal list" where
  "if_connected j sg = (if j_signals j = None then [] else [sg])"

lemma emit_quiet: "slots_quiet j \<Longrightarrow> emit j sg = (if_connected j sg, None)"
  by (auto simp: emit_def slots_quiet_def if_connected_def split: option.splits)

lemma emit_then_quiet:
  "slots_quiet j \<Longrightarrow> emit_then j l sg l' res =
     (settle (map_sum (unwind (passed_entry l')) id res), if_connected j sg)"
  by (auto simp: emit_then_def emit_quiet split: sum.splits)

lemma make_exn_simps [simp]: "ecls (make_exn c m) = c" "emsg (make_exn c m) = m" "etb (make_exn c m) = []"
  by (simp_all add: make_exn_def)

lemma settle_simps [simp]:
  "settle (Inr v) = TaskReturned v"
  "catches [AsyncioCancelledError] e \<Longrightarrow> settle (Inl e) = TaskCancelled"
  "\<not> catches [AsyncioCancelledError] e \<Longrightarrow> settle (Inl e) = TaskRaised e"
  by (simp_all add: settle_def)

lemma catches_make_exn [simp]: "catches cs (make_exn c m) = list_ex (issubclass c) cs"
  by (simp add: catches_def)

text \<open>
  The specification of the conclusion: the work decides if it is among the finished tasks;
  else a deadline that passed is an error of class \<open>KoilTimeoutError\<close>; else the end is a
  cancellation. The signal that fires says the same as the end of the task.
\<close>

definition decided :: "race \<Rightarrow> task_end \<Rightarrow> signal list \<Rightarrow> bool" where
  "decided r t sent \<longleftrightarrow>
     (if Work \<in> set (r_finished r) then
        (case r_done r Work of
           Some (TaskReturned v) \<Rightarrow>
             t = TaskReturned v \<and>
             sent = if_connected (r_job r) (if j_iterates (r_job r) then SigDone else SigReturned v (r_ctx r))
         | Some (TaskRaised e) \<Rightarrow>
             (\<exists>e' l. e' \<in> {e, prune_exn False e} \<and> t = TaskRaised (unwind (passed_entry l) e') \<and>
                sent = if_connected (r_job r) (SigErrored e'))
         | _ \<Rightarrow> t = TaskCancelled \<and> sent = [])
      else if timed_out r then
        (\<exists>e l. ecls e = KoilTimeoutError \<and> t = TaskRaised (unwind (passed_entry l) e) \<and>
           sent = if_connected (r_job r) (SigErrored e))
      else
        (\<exists>e l. (if j_iterates (r_job r)
                then ecls e = CancelledError \<and> t = TaskRaised (unwind (passed_entry l) e)
                else ecls e = AsyncioCancelledError \<and> t = TaskCancelled) \<and>
           sent = if_connected (r_job r) (SigCancelled e)))"

lemma verdict_decided:
  assumes "slots_quiet (r_job r)" and "work_ok r" and "verdict b r = (t, sent)"
  shows "decided r t sent"
proof (cases "Work \<in> set (r_finished r)")
  case True
  then show ?thesis
    using assms
    by (cases b)
      (auto simp: decided_def verdict_def conclude_run_def conclude_iterate_def emit_then_quiet Let_def
        work_ok_def split: option.splits task_end.splits if_splits)
next
  case False
  have timeout: "settle (Inl (unwind l (make_exn KoilTimeoutError m)))
      = TaskRaised (unwind l (make_exn KoilTimeoutError m))" for l m
    by (rule settle_simps) (simp add: koil_simps)
  have iter: "settle (Inl (unwind l (make_exn CancelledError m)))
      = TaskRaised (unwind l (make_exn CancelledError m))" for l m
    by (rule settle_simps) (simp add: koil_simps)
  have run: "settle (Inl (unwind l (make_exn AsyncioCancelledError m))) = TaskCancelled" for l m
    by (rule settle_simps) (simp add: koil_simps)
  from False assms show ?thesis
    by (auto simp: decided_def timed_out_def verdict_def conclude_run_def conclude_iterate_def
        emit_then_quiet Let_def timeout iter run intro: exI [where x = "make_exn _ _"]
        split: if_splits)
qed

subsection \<open>The task ends\<close>

text \<open>Once the losers are all ready, as many resumptions as there are losers end the task.\<close>

lemma tidy_cases:
  obtains "todo = []" and "tidy s todo r = conclude s r"
  | "todo \<noteq> []" and "r_phase (tidy s todo r) = Tidying todo"
  by (cases todo) (simp_all add: tidy_def)

lemma conclude_ended: "\<exists>t. r_phase (conclude s r) = Ended t"
  by (simp add: conclude_def split: prod.splits)

lemma awaited_cases:
  obtains t' where "r_phase (awaited s todo t r) = Ended t'"
  | "todo \<noteq> []" and "r_phase (awaited s todo t r) = Tidying todo"
proof -
  have "(\<exists>t'. r_phase (tidy s todo x) = Ended t') \<or> (todo \<noteq> [] \<and> r_phase (tidy s todo x) = Tidying todo)" for x
    by (cases rule: tidy_cases [of todo s x]) (simp_all add: conclude_ended)
  then have "(\<exists>t'. r_phase (awaited s todo t r) = Ended t') \<or>
      (todo \<noteq> [] \<and> r_phase (awaited s todo t r) = Tidying todo)"
    by (auto simp: awaited_def split: task_end.splits)
  then show thesis using that by blast
qed

lemma tidy_run:
  assumes "r_phase r = Tidying todo" and "todo \<noteq> []" and "Work \<in> set todo \<Longrightarrow> r_done r Work \<noteq> None"
  shows "\<exists>n r' t. n \<le> length todo \<and> grun race_sys (replicate n (s, EvTidy)) r = Some r' \<and>
    r_phase r' = Ended t"
  using assms
proof (induction todo arbitrary: r)
  case (Cons w todo)
  define u where "u = (if w = Work then the (r_done r Work) else TaskCancelled)"
  have st: "race_sys (s, EvTidy) r = Some (awaited s todo u r)"
    using Cons.prems by (auto simp: race_sys_def u_def)
  show ?case
  proof (cases rule: awaited_cases [of s todo u r])
    case (1 t')
    with st show ?thesis by (intro exI [of _ "Suc 0"]) simp
  next
    case 2
    with Cons.prems obtain n r' t where
      "n \<le> length todo \<and> grun race_sys (replicate n (s, EvTidy)) (awaited s todo u r) = Some r' \<and>
        r_phase r' = Ended t"
      using Cons.IH [of "awaited s todo u r"] by auto
    with st show ?thesis by (intro exI [of _ "Suc n"]) simp
  qed
qed simp

text \<open>With the deadline passed, the work need not cooperate: its grace runs out.\<close>

definition after :: "time \<Rightarrow> 'z rt_scheme \<Rightarrow> 'z rt_scheme" where
  "after d s = s\<lparr>rt_now := rt_now s + d\<rparr>"

lemma after_simps [simp]:
  "rt_now (after d s) = rt_now s + d" "rt_koils (after d s) = rt_koils s"
  "cancel_grace k (after d s) = cancel_grace k s"
  by (simp_all add: after_def cancel_grace_def split: option.splits)

lemma awaited_since: "r_phase (awaited s todo t r) = Tidying ws \<Longrightarrow> r_since (awaited s todo t r) = rt_now s"
  by (auto simp: awaited_def tidy_def conclude_def split: task_end.splits if_splits list.splits prod.splits)

lemma timed_out_awaited [simp]: "timed_out (awaited s todo t r) = timed_out r"
  by (simp add: timed_out_def)

lemma tidy_run_deadline:
  assumes "r_phase r = Tidying todo" and "todo \<noteq> []" and "distinct todo" and "timed_out r"
    and "r_since r \<le> rt_now s" and "d = max 0 (cancel_grace (j_koil (r_job r)) s)"
  shows "\<exists>evs r' t. length evs \<le> length todo \<and>
    set evs \<subseteq> {(s, EvTidy), (after d s, EvTidy), (after d s, EvGrace)} \<and>
    grun race_sys evs r = Some r' \<and> r_phase r' = Ended t"
  using assms
proof (induction todo arbitrary: r)
  case (Cons w todo)
  show ?case
  proof (cases "w = Work \<and> r_done r Work = None")
    case True
    let ?r = "tidy (after d s) todo (r\<lparr>r_ack := False\<rparr>)"
    have st: "race_sys (after d s, EvGrace) r = Some ?r"
      using True Cons.prems by (auto simp: race_sys_def)
    show ?thesis
    proof (cases rule: tidy_cases [of todo "after d s" "r\<lparr>r_ack := False\<rparr>"])
      case 1
      with st conclude_ended show ?thesis
        by (intro exI [of _ "[(after d s, EvGrace)]"]) fastforce
    next
      case 2
      have "Work \<notin> set todo" using True Cons.prems(3) by auto
      then obtain n r' t where n: "n \<le> length todo" "r_phase r' = Ended t"
        "grun race_sys (replicate n (after d s, EvTidy)) ?r = Some r'"
        using tidy_run [OF 2(2,1)] by metis
      with st show ?thesis
        by (intro exI [of _ "(after d s, EvGrace) # replicate n (after d s, EvTidy)"]) auto
    qed
  next
    case False
    define u where "u = (if w = Work then the (r_done r Work) else TaskCancelled)"
    have st: "race_sys (s, EvTidy) r = Some (awaited s todo u r)"
      using Cons.prems False by (auto simp: race_sys_def u_def)
    show ?thesis
    proof (cases rule: awaited_cases [of s todo u r])
      case (1 t')
      with st show ?thesis by (intro exI [of _ "[(s, EvTidy)]"]) simp
    next
      case 2
      then obtain evs r' t where "length evs \<le> length todo"
        "set evs \<subseteq> {(s, EvTidy), (after d s, EvTidy), (after d s, EvGrace)}"
        "grun race_sys evs (awaited s todo u r) = Some r'" "r_phase r' = Ended t"
        using Cons.IH [of "awaited s todo u r"] Cons.prems awaited_since [OF 2(2)] by auto
      with st show ?thesis by (intro exI [of _ "(s, EvTidy) # evs"]) auto
    qed
  qed
qed simp

text \<open>Resuming the task and letting the grace run out end no other task.\<close>

lemma tidying_keeps:
  assumes "grun race_sys evs r = Some r'" and "snd ` set evs \<subseteq> {EvTidy, EvGrace}"
  shows "r_done r' = r_done r \<and> r_finished r' = r_finished r \<and> r_job r' = r_job r"
  using assms
proof (induction evs arbitrary: r)
  case (Cons a evs)
  obtain s ev where a: "a = (s, ev)" by fastforce
  with Cons.prems obtain r1 where st: "race_next s ev r = Some r1" and "ev = EvTidy \<or> ev = EvGrace"
    and run: "grun race_sys evs r1 = Some r'"
    by (auto simp: race_sys_def split: option.splits)
  then have "r_done r1 = r_done r \<and> r_finished r1 = r_finished r \<and> r_job r1 = r_job r"
    by (auto split: phase.splits list.splits option.splits if_splits)
  with Cons run show ?case by simp
qed simp

text \<open>The race as decided by one task alone, with the others to be tidied up in any order.\<close>

lemma race_decided_by:
  assumes "r_phase r = Racing" and "r_done r = (\<lambda>_. None)" and "w0 \<in> set (race_tasks (r_job r))"
    and "race_next s ev r = Some (finish_task w0 u r)"
    and "distinct order" and "set order = set (race_tasks (r_job r)) - {w0}"
  shows "order \<noteq> [] \<and> grun race_sys [(s, ev), (s, EvWake order)] r =
    Some (r\<lparr>r_phase := Tidying order, r_done := [w0 \<mapsto> u], r_finished := [w0], r_since := rt_now s\<rparr>)"
proof -
  have d: "distinct (race_tasks (r_job r))" by (simp add: race_tasks_def)
  have eq: "(\<lambda>w. [w0 \<mapsto> u] w \<noteq> None) = (\<lambda>w. w = w0)" by (auto simp: fun_eq_iff)
  have f: "filter (\<lambda>w. [w0 \<mapsto> u] w \<noteq> None) (race_tasks (r_job r)) = [w0]"
    unfolding eq by (rule filter_eq_single [OF d assms(3)])
  have unf: "set (filter (\<lambda>w. [w0 \<mapsto> u] w = None) (race_tasks (r_job r))) = set order"
    unfolding assms(6) by auto
  have "\<not> [w0 \<mapsto> u] w0 = None" by simp
  with assms(3) have some: "filter (\<lambda>w. [w0 \<mapsto> u] w = None) (race_tasks (r_job r)) \<noteq> race_tasks (r_job r)"
    unfolding filter_id_conv by metis
  have "{Work, OwnCancel} - {w0} \<subseteq> set order" unfolding assms(6) by (auto simp: race_tasks_def)
  then have "order \<noteq> []" by auto
  then obtain w ws where "order = w # ws" by (cases order) auto
  with assms(1,2,4,5) f unf some show ?thesis
    by (simp add: race_sys_def finish_task_def unfinished_def tidy_def)
qed

text \<open>
  What a run of the tidying comes to when it ends with the work silent or cancelled: the
  conclusion, since nothing was raised while unwinding.
\<close>

lemma tidied_decided:
  fixes evs :: "('z rt_scheme \<times> race_ev) list"
  assumes "reach (race_sys :: 'z rt_scheme \<times> race_ev \<Rightarrow> race \<Rightarrow> race option) (new_race j) r"
    and "slots_quiet j" and "grun race_sys evs r = Some r'" and "snd ` set evs \<subseteq> {EvTidy, EvGrace}"
    and "r_phase r' = Ended t" and "r_finished r \<noteq> []"
    and "\<And>e. r_done r Work \<noteq> Some (TaskRaised e)"
  shows "decided r' t (terminals r')"
proof -
  note keep = tidying_keeps [OF assms(3,4)]
  note reach = grun_reach [OF assms(1,3)]
  have job: "r_job r' = j" using reach_job [OF reach] by (simp add: new_race_def)
  from reach_ended [OF reach assms(5)] obtain b where "verdict b r' = (t, terminals r')"
    using keep assms(6,7) by (auto simp: ended_ok_def)
  with verdict_decided [of r'] reach_race_ok [OF reach] job assms(2) show ?thesis by simp
qed

subsection \<open>Properties\<close>

text \<open>
  C4: how the task of a submitted coroutine or generator can end, over every interleaving of
  the work, the cancel events, the deadline and the shutdown of the loop. It ends as
  cancelled, without a signal, if it was shut down before the race was decided. Otherwise,
  with slots that do not raise: if the work was done when the race was decided, its value or
  exception is the outcome, even if a cancel event or the deadline fired as well; if not, a
  deadline that passed gives \<open>KoilTimeoutError\<close>, and a cancel event gives the cancellation;
  and the one signal emitted says the same as the future. The only other outcome is an
  exception the work raised, other than a \<open>TimeoutError\<close>, while it was being cancelled;
  that one leaves without any signal.
\<close>

theorem race_outcome:
  assumes "reach race_sys (new_race j) r" and "r_phase r = Ended t" and "slots_quiet j"
  shows "(t = TaskCancelled \<and> r_finished r = [] \<and> terminals r = []) \<or>
    (r_finished r \<noteq> [] \<and> decided r t (terminals r)) \<or>
    (r_finished r \<noteq> [] \<and> Work \<notin> set (r_finished r) \<and> terminals r = [] \<and>
      (\<exists>e. r_done r Work = Some (TaskRaised e) \<and> \<not> catches [TimeoutError] e \<and>
        t = TaskRaised (await_frames r e)))"
proof -
  have job: "r_job r = j" using reach_job [OF assms(1)] by (simp add: new_race_def)
  have ok: "work_ok r" using reach_race_ok [OF assms(1)] by simp
  have "catches cs (await_frames r e) = catches cs e" for cs e
    by (simp add: await_frames_def Let_def)
  then show ?thesis
    using reach_ended [OF assms(1,2)] verdict_decided [of r] job ok assms(3)
    by (auto simp: ended_ok_def work_ok_def)
qed

text \<open>
  C9: a coroutine or generator that is cancelled through its own future, and lets the
  cancellation pass, ends as cancelled: whatever the order in which the losers of the race
  are tidied up, the task concludes after at most one resumption for each of them, the
  future is cancelled (for a generator it holds koil's \<open>CancelledError\<close>) and exactly the
  \<open>cancelled\<close> signal fires.
\<close>

theorem race_cancel_completes:
  fixes s :: "'z rt_scheme"
  assumes "reach (race_sys :: 'z rt_scheme \<times> race_ev \<Rightarrow> race \<Rightarrow> race option) (new_race j) r"
    and "slots_quiet j"
    and "r_phase r = Racing" and "r_done r = (\<lambda>_. None)" and "event_is_set (j_own j) s"
    and "distinct order" and "set order = set (race_tasks j) - {OwnCancel}"
    and "ecls x = AsyncioCancelledError" and "j_call_raises j = None"
  shows "\<exists>n r' t e. n \<le> length order \<and>
    grun race_sys ([(s, EvOwn), (s, EvWake order), (s, EvWork (Inl x) sets)] @
      replicate n (s, EvTidy)) r = Some r' \<and>
    r_phase r' = Ended t \<and> terminals r' = if_connected j (SigCancelled e) \<and>
    (if j_iterates j then \<exists>e'. t = TaskRaised e' \<and> ecls e' = CancelledError else t = TaskCancelled)"
proof -
  have job: "r_job r = j" using reach_job [OF assms(1)] by (simp add: new_race_def)
  let ?pre = "[(s, EvOwn), (s, EvWake order), (s, EvWork (Inl x) sets)]"
  let ?r2 = "r\<lparr>r_phase := Tidying order, r_done := [OwnCancel \<mapsto> TaskReturned (PyBool True)],
    r_finished := [OwnCancel], r_since := rt_now s\<rparr>"
  define r3 where "r3 = finish_task Work TaskCancelled (?r2\<lparr>r_ctx := set_items sets (r_ctx r)\<rparr>)"
  have start: "order \<noteq> []" "grun race_sys [(s, EvOwn), (s, EvWake order)] r = Some ?r2"
    using race_decided_by [of r OwnCancel s EvOwn "TaskReturned (PyBool True)" order] assms(3-7)
    by (simp_all add: job race_tasks_def)
  have "work_end j n (Inl x) = TaskCancelled" for n
    using assms(8,9) by (simp add: work_end_def catches_def koil_simps)
  then have run: "grun race_sys ?pre r = Some r3"
    using grun_append [OF start(2), of "[(s, EvWork (Inl x) sets)]"]
    by (simp add: race_sys_def job work_running_def r3_def)
  have r3: "r_phase r3 = Tidying order" "order \<noteq> []" "r_done r3 Work = Some TaskCancelled"
    "r_finished r3 = [OwnCancel]" using start(1) by (simp_all add: r3_def)
  obtain n r' t where n: "n \<le> length order" "r_phase r' = Ended t"
    "grun race_sys (replicate n (s, EvTidy)) r3 = Some r'"
    using tidy_run [OF r3(1,2), of s] r3(3) by auto
  have keep: "r_done r' = r_done r3 \<and> r_finished r' = r_finished r3 \<and> r_job r' = r_job r3"
    by (rule tidying_keeps [OF n(3)]) auto
  have "decided r' t (terminals r')"
    by (rule tidied_decided [OF grun_reach [OF assms(1) run] assms(2) n(3) _ n(2)])
      (auto simp: r3)
  then obtain e where "terminals r' = if_connected j (SigCancelled e)"
    "if j_iterates j then \<exists>e'. t = TaskRaised e' \<and> ecls e' = CancelledError else t = TaskCancelled"
    using keep r3 job by (auto simp: decided_def timed_out_def r3_def split: if_splits)
  moreover have "grun race_sys (?pre @ replicate n (s, EvTidy)) r = Some r'"
    using grun_append [OF run] n(3) by simp
  ultimately show ?thesis using n(1,2) by blast
qed

text \<open>
  C8: a timeout is enforced even on work that never reacts to its cancellation. When the
  deadline passes with the work still running, then whatever the order in which the losers
  are tidied up, the task ends at the latest one grace period later, with
  \<open>KoilTimeoutError\<close> and the \<open>errored\<close> signal, not the \<open>cancelled\<close> one.
\<close>

theorem race_deadline_enforced:
  fixes s :: "'z rt_scheme"
  assumes "reach (race_sys :: 'z rt_scheme \<times> race_ev \<Rightarrow> race \<Rightarrow> race option) (new_race j) r"
    and "slots_quiet j"
    and "r_phase r = Racing" and "r_done r = (\<lambda>_. None)"
    and "j_timeout j = Some limit" and "r_since r + limit \<le> rt_now s"
    and "distinct order" and "set order = set (race_tasks j) - {TimeoutWaiter}"
    and "d = max 0 (cancel_grace (j_koil j) s)"
  shows "\<exists>evs r' e l. length evs \<le> length order \<and>
    set evs \<subseteq> {(s, EvTidy), (after d s, EvTidy), (after d s, EvGrace)} \<and>
    grun race_sys ([(s, EvTimer), (s, EvWake order)] @ evs) r = Some r' \<and>
    r_phase r' = Ended (TaskRaised (unwind (passed_entry l) e)) \<and> ecls e = KoilTimeoutError \<and>
    terminals r' = if_connected j (SigErrored e)"
proof -
  have job: "r_job r = j" using reach_job [OF assms(1)] by (simp add: new_race_def)
  let ?pre = "[(s, EvTimer), (s, EvWake order)]"
  define r2 where "r2 = r\<lparr>r_phase := Tidying order, r_done := [TimeoutWaiter \<mapsto> TaskReturned PyNone],
    r_finished := [TimeoutWaiter], r_since := rt_now s\<rparr>"
  have start: "order \<noteq> []" "grun race_sys ?pre r = Some r2"
    using race_decided_by [of r TimeoutWaiter s EvTimer "TaskReturned PyNone" order] assms(3-8)
    by (simp_all add: job race_tasks_def r2_def)
  have r2: "r_phase r2 = Tidying order" "timed_out r2" "r_since r2 \<le> rt_now s" "r_job r2 = j"
    "r_done r2 Work = None" "r_finished r2 = [TimeoutWaiter]"
    by (simp_all add: r2_def timed_out_def job)
  obtain evs r' t where evs: "length evs \<le> length order"
    "set evs \<subseteq> {(s, EvTidy), (after d s, EvTidy), (after d s, EvGrace)}"
    "grun race_sys evs r2 = Some r'" "r_phase r' = Ended t"
    using tidy_run_deadline [OF r2(1) start(1) assms(7) r2(2,3)] assms(9) r2(4) by blast
  from evs(2) have kinds: "snd ` set evs \<subseteq> {EvTidy, EvGrace}" by auto
  have "decided r' t (terminals r')"
    by (rule tidied_decided [OF grun_reach [OF assms(1) start(2)] assms(2) evs(3) kinds evs(4)])
      (simp_all add: r2)
  then obtain e l where "ecls e = KoilTimeoutError" "t = TaskRaised (unwind (passed_entry l) e)"
    "terminals r' = if_connected j (SigErrored e)"
    using tidying_keeps [OF evs(3) kinds] r2 by (auto simp: decided_def timed_out_def)
  moreover have "grun race_sys (?pre @ evs) r = Some r'"
    using grun_append [OF start(2)] evs(3) by simp
  ultimately show ?thesis using evs by metis
qed

subsection \<open>Witnesses\<close>

text \<open>A job with a timeout and quiet slots, and a process in which its cancel event is set.\<close>

definition sample_job :: job where
  "sample_job =
     \<lparr>j_loop = 0, j_ctx = [(UserVar ''x'', PyInt 1)], j_koil = None, j_own = 0, j_ambient = None,
      j_timeout = Some 3, j_signals = Some (\<lambda>_. None), j_iterates = False, j_call_raises = None\<rparr>"

definition cancelled_rt :: rt where
  "cancelled_rt = init_rt\<lparr>rt_events := (\<lambda>_. \<lparr>ev_loop = 0, ev_flag = True\<rparr>)\<rparr>"

definition started :: race where
  "started = (new_race sample_job)\<lparr>r_phase := Racing\<rparr>"

lemma sample_job_simps [simp]:
  "race_tasks sample_job = [Work, OwnCancel, TimeoutWaiter]" "j_own sample_job = 0"
  "j_timeout sample_job = Some 3" "j_iterates sample_job = False" "j_koil sample_job = None"
  "slots_quiet sample_job" "j_ctx sample_job = [(UserVar ''x'', PyInt 1)]"
  "j_call_raises sample_job = None" "if_connected sample_job sg = [sg]" "emit sample_job sg = ([sg], None)"
  by (simp_all add: sample_job_def race_tasks_def slots_quiet_def if_connected_def emit_def)

lemma started_simps [simp]:
  "r_phase started = Racing" "r_done started = (\<lambda>_. None)" "r_job started = sample_job"
  "r_since started = 0" "r_finished started = []"
  by (simp_all add: started_def new_race_def)

lemma started_reach: "reach (race_sys :: rt \<times> race_ev \<Rightarrow> race \<Rightarrow> race option) (new_race sample_job) started"
proof (rule reach_step [OF reach_init])
  show "race_sys (init_rt, EvStart) (new_race sample_job) = Some started"
    by (simp add: race_sys_def new_race_def started_def set_items_def ctx_set_def init_rt_def)
qed

theorem race_outcome_witness:
  "\<exists>r. grun race_sys [(cancelled_rt, EvWork (Inr (PyInt 7)) []), (cancelled_rt, EvOwn),
        (cancelled_rt, EvWake [TimeoutWaiter]), (cancelled_rt, EvTidy)] started = Some r \<and>
     r_phase r = Ended (TaskReturned (PyInt 7)) \<and> decided r (TaskReturned (PyInt 7)) (terminals r)"
proof -
  let ?evs = "[(cancelled_rt, EvWork (Inr (PyInt 7)) []), (cancelled_rt, EvOwn),
        (cancelled_rt, EvWake [TimeoutWaiter]), (cancelled_rt, EvTidy)]"
  obtain r where r: "grun race_sys ?evs started = Some r" "r_phase r = Ended (TaskReturned (PyInt 7))"
    by (simp add: race_sys_def work_running_def event_is_set_def cancelled_rt_def unfinished_def
        finish_task_def work_end_def tidy_def awaited_def conclude_def verdict_def conclude_run_def
        emit_then_def)
  from race_outcome [OF grun_reach [OF started_reach r(1)] r(2) sample_job_simps(6)] r
  show ?thesis by auto
qed

theorem race_cancel_completes_witness:
  "\<exists>n r' t e. n \<le> 2 \<and>
     grun race_sys ([(cancelled_rt, EvOwn), (cancelled_rt, EvWake [TimeoutWaiter, Work]),
       (cancelled_rt, EvWork (Inl (make_exn AsyncioCancelledError [])) [])] @
       replicate n (cancelled_rt, EvTidy)) started = Some r' \<and>
     r_phase r' = Ended t \<and> terminals r' = [SigCancelled e] \<and> t = TaskCancelled"
proof -
  have hyps: "event_is_set (j_own sample_job) cancelled_rt" "distinct [TimeoutWaiter, Work]"
    "set [TimeoutWaiter, Work] = set (race_tasks sample_job) - {OwnCancel}"
    "ecls (make_exn AsyncioCancelledError []) = AsyncioCancelledError" "j_call_raises sample_job = None"
    by (auto simp: event_is_set_def cancelled_rt_def)
  obtain n r' t e where out: "n \<le> length [TimeoutWaiter, Work]"
    "grun race_sys ([(cancelled_rt, EvOwn), (cancelled_rt, EvWake [TimeoutWaiter, Work]),
       (cancelled_rt, EvWork (Inl (make_exn AsyncioCancelledError [])) [])] @
       replicate n (cancelled_rt, EvTidy)) started = Some r'"
    "r_phase r' = Ended t" "terminals r' = if_connected sample_job (SigCancelled e)"
    "if j_iterates sample_job then \<exists>e'. t = TaskRaised e' \<and> ecls e' = CancelledError
     else t = TaskCancelled"
    using race_cancel_completes [OF started_reach sample_job_simps(6) started_simps(1,2) hyps, of "[]"]
    by blast
  from out(1,4,5) have "n \<le> 2" "terminals r' = [SigCancelled e]" "t = TaskCancelled" by simp_all
  with out(2,3) show ?thesis by blast
qed

theorem race_deadline_enforced_witness:
  "\<exists>evs r' e l. length evs \<le> 2 \<and>
     grun race_sys ([(after 3 init_rt, EvTimer), (after 3 init_rt, EvWake [OwnCancel, Work])] @ evs)
       started = Some r' \<and>
     r_phase r' = Ended (TaskRaised (unwind (passed_entry l) e)) \<and> ecls e = KoilTimeoutError \<and>
     terminals r' = [SigErrored e]"
proof -
  have hyps: "r_since started + 3 \<le> rt_now (after 3 init_rt)" "distinct [OwnCancel, Work]"
    "set [OwnCancel, Work] = set (race_tasks sample_job) - {TimeoutWaiter}"
    by (auto simp: init_rt_def)
  obtain evs r' e l where out: "length evs \<le> length [OwnCancel, Work]"
    "grun race_sys ([(after 3 init_rt, EvTimer), (after 3 init_rt, EvWake [OwnCancel, Work])] @ evs)
       started = Some r'"
    "r_phase r' = Ended (TaskRaised (unwind (passed_entry l) e))" "ecls e = KoilTimeoutError"
    "terminals r' = if_connected sample_job (SigErrored e)"
    using race_deadline_enforced [OF started_reach sample_job_simps(6) started_simps(1,2)
        sample_job_simps(3) hyps refl]
    by blast
  from out(1,5) have "length evs \<le> 2" "terminals r' = [SigErrored e]" by simp_all
  with out(2-4) show ?thesis by blast
qed

end
