(* ===== verification/Koil_Future.thy ===== *)
theory Koil_Future
  imports Koil_Race
begin

section \<open>Futures (koil/utils.py)\<close>

text \<open>
  Submitting a coroutine or generator to the loop, \<open>KoilFuture\<close> with its methods, and closing
  an async generator from another thread. \<open>world\<close> adds the submitted tasks to the shared
  state. What the other threads do while a thread is blocked is an argument: the list of the
  events that happen from now on, consumed in order by the operations that wait. When the
  list is used up nothing happens any more but time passing.
\<close>

subsection \<open>The world\<close>

record world = rt +
  w_races :: "nat \<Rightarrow> race"
  w_nraces :: nat
  w_sigint :: bool

text \<open>
  Time passes; a loop fires its due timers; a loop takes its oldest callback; a task of the loop makes a step; some thread
  posts to a loop; the thread of a loop ends; the user presses Ctrl+C.
\<close>

datatype wevent =
    WTick time
  | WTimers nat
  | WTurn nat
  | WRace nat race_ev
  | WPost nat callback
  | WLoopEnds nat
  | WSigint

definition upd_race :: "nat \<Rightarrow> race \<Rightarrow> world \<Rightarrow> world" where
  "upd_race f r w = w\<lparr>w_races := (w_races w)(f := r)\<rparr>"

definition race_act :: "nat \<Rightarrow> race_ev \<Rightarrow> world \<Rightarrow> world" where
  "race_act f ev w =
     (case race_next w ev (w_races w f) of None \<Rightarrow> w | Some r \<Rightarrow> upd_race f r w)"

text \<open>A submitted task starts when the loop takes its callback.\<close>

definition turn :: "nat \<Rightarrow> world \<Rightarrow> world" where
  "turn l w =
     (case l_ready (rt_loops w l) of
        CbSubmit f # q \<Rightarrow> if l_closed (rt_loops w l) then w else race_act f EvStart (run_ready l w)
      | _ \<Rightarrow> run_ready l w)"

definition fire_timers :: "nat \<Rightarrow> world \<Rightarrow> world" where
  "fire_timers l w =
     (if l_closed (rt_loops w l) then w
      else
        let (due, later) = partition (\<lambda>(d, t). d \<le> rt_now w) (l_timers (rt_loops w l))
        in (upd_loop l (\<lambda>x. x\<lparr>l_timers := later\<rparr>) w)
             \<lparr>rt_fired := (\<lambda>t. rt_fired w t \<or> t \<in> snd ` set due)\<rparr>)"

fun wstep :: "wevent \<Rightarrow> world \<Rightarrow> world" where
  "wstep (WTick d) w = w\<lparr>rt_now := rt_now w + max 0 d\<rparr>"
| "wstep (WTimers l) w = fire_timers l w"
| "wstep (WTurn l) w = turn l w"
| "wstep (WRace f ev) w =
     (if l_closed (rt_loops w (j_loop (r_job (w_races w f)))) \<or> ev = EvStart then w
      else race_act f ev w)"
| "wstep (WPost l cb) w = loop_act_step l (Post cb) w"
| "wstep (WLoopEnds l) w = loop_thread_ended l w"
| "wstep WSigint w = w\<lparr>w_sigint := True\<rparr>"

subsection \<open>Concurrent futures\<close>

definition future_done :: "nat \<Rightarrow> world \<Rightarrow> bool" where
  "future_done f w = (case r_phase (w_races w f) of Ended _ \<Rightarrow> True | _ \<Rightarrow> False)"

text \<open>
  Waiting for a condition up to the time \<open>dl\<close>: it returns as soon as the condition holds. The
  rest of the events is left for later. \<open>concurrent.futures.wait([f], timeout)\<close> is the case of
  a future that is done.
\<close>

fun wait_until :: "(world \<Rightarrow> bool) \<Rightarrow> time \<Rightarrow> wevent list \<Rightarrow> world \<Rightarrow> world \<times> wevent list" where
  "wait_until P dl [] w = (if P w then w else w\<lparr>rt_now := max (rt_now w) dl\<rparr>, [])"
| "wait_until P dl (ev # evs) w =
     (if P w \<or> dl \<le> rt_now w then (w, ev # evs)
      else case ev of
        WTick d \<Rightarrow>
          if dl \<le> rt_now w + d then (w\<lparr>rt_now := dl\<rparr>, WTick (rt_now w + d - dl) # evs)
          else wait_until P dl evs (wstep ev w)
      | _ \<Rightarrow> wait_until P dl evs (wstep ev w))"

definition cf_wait :: "nat \<Rightarrow> time \<Rightarrow> wevent list \<Rightarrow> world \<Rightarrow> world \<times> wevent list" where
  "cf_wait f dl evs w = wait_until (future_done f) dl evs w"

text \<open>
  What asyncio makes of the exception of a task when it hands it to the concurrent future,
  and \<open>Future.result()\<close> of a future that is done, with the frames of its module.
\<close>

definition convert_future_exc :: "exn \<Rightarrow> exn" where
  "convert_future_exc e =
     (if ecls e = FuturesCancelledError
      then Exn AsyncioCancelledError (emsg e) (etb e) None None else e)"

definition cf_entry :: "string \<Rightarrow> tb_entry" where
  "cf_entry fn = entry ''concurrent.futures._base'' fn False 0"

definition cf_result :: "nat \<Rightarrow> world \<Rightarrow> (exn + pyval \<times> ctx) option" where
  "cf_result f w =
     (case r_phase (w_races w f) of
        Ended (TaskReturned v) \<Rightarrow> Some (Inr (v, r_ctx (w_races w f)))
      | Ended (TaskRaised e) \<Rightarrow>
          Some (Inl (unwind (cf_entry ''result'') (unwind (cf_entry ''__get_result'') (convert_future_exc e))))
      | Ended TaskCancelled \<Rightarrow> Some (Inl (new_exn (cf_entry ''result'') FuturesCancelledError []))
      | _ \<Rightarrow> None)"

subsection \<open>KoilFuture\<close>

definition RESULT_POLL_INTERVAL :: time where
  "RESULT_POLL_INTERVAL = 1 / 20"

definition safe_set_event :: "nat \<Rightarrow> world \<Rightarrow> exn + world" where
  "safe_set_event e w =
     (case event_set e w of
        Inr w' \<Rightarrow> Inr w'
      | Inl x \<Rightarrow> if catches [RuntimeError] x then Inr w else Inl x)"

record kfut =
  kf_future :: nat
  kf_cancel_event :: nat
  kf_cancel_requested :: bool
  kf_cancel_reason :: "string option"
  kf_timed_out :: bool

definition kf_init :: "nat \<Rightarrow> nat \<Rightarrow> kfut" where
  "kf_init future cancel_event =
     \<lparr>kf_future = future, kf_cancel_event = cancel_event, kf_cancel_requested = False,
      kf_cancel_reason = None, kf_timed_out = False\<rparr>"

definition kf_cancel :: "string option \<Rightarrow> kfut \<Rightarrow> world \<Rightarrow> (exn + bool) \<times> kfut \<times> world" where
  "kf_cancel reason kf w =
     (if \<not> future_done (kf_future kf) w then
        let kf' = kf\<lparr>kf_cancel_requested := True, kf_cancel_reason := reason\<rparr> in
        (case safe_set_event (kf_cancel_event kf') w of
           Inl x \<Rightarrow> (Inl x, kf', w)
         | Inr w' \<Rightarrow> (Inr True, kf', w'))
      else (Inr False, kf, w))"

definition kf_done :: "kfut \<Rightarrow> world \<Rightarrow> bool" where
  "kf_done kf w = future_done (kf_future kf) w"

definition kf_cancelled :: "kfut \<Rightarrow> world \<Rightarrow> bool" where
  "kf_cancelled kf w = (kf_cancel_requested kf \<or> event_is_set (kf_cancel_event kf) w)"

text \<open>
  \<open>_timeout_expired\<close>: \<open>Inr\<close> the error it returns, \<open>Inl\<close> what it raises (a Ctrl+C that was
  pending when the wait returned). The Ctrl+C of the model is meant for the waiting thread:
  Python delivers it to the main thread only.
\<close>

definition kf_timeout_expired ::
    "caller \<Rightarrow> wevent list \<Rightarrow> kfut \<Rightarrow> world \<Rightarrow> (exn + exn) \<times> kfut \<times> world \<times> wevent list" where
  "kf_timeout_expired c evs kf w =
     (case kf_cancel (Some ''timeout'') (kf\<lparr>kf_timed_out := True\<rparr>) w of
        (Inl x, kf1, w1) \<Rightarrow> (Inl x, kf1, w1, evs)
      | (Inr _, kf1, w1) \<Rightarrow>
          let grace = cancel_grace (ambient_koil c) w1;
              (w2, evs2) = cf_wait (kf_future kf1) (rt_now w1 + grace) evs w1
          in if w_sigint w2 then (Inl (new_exn (entry ''koil.utils'' ''_timeout_expired'' True 268) KeyboardInterrupt []),
                   kf1, w2\<lparr>w_sigint := False\<rparr>, evs2)
             else (Inr (make_exn KoilTimeoutError
                     (if future_done (kf_future kf1) w2
                      then ''Task did not complete in time; it was cancelled.''
                      else ''Task did not complete in time and did not acknowledge cancellation.'')),
                   kf1, w2, evs2))"

text \<open>
  The loop of \<open>result\<close>: why it was left, the world then, and the events left. A pending
  Ctrl+C is delivered when control is back from a wait. \<open>None\<close>: it is never left.
\<close>

datatype waited = Completed | Expired | Interrupted

partial_function (option) result_loop ::
    "nat \<Rightarrow> time \<Rightarrow> time option \<Rightarrow> wevent list \<Rightarrow> world \<Rightarrow> (waited \<times> world \<times> wevent list) option" where
  "result_loop f interval deadline evs w =
     (if w_sigint w then Some (Interrupted, w\<lparr>w_sigint := False\<rparr>, evs)
      else if future_done f w then Some (Completed, w, evs)
      else case deadline of
        None \<Rightarrow>
          (case cf_wait f (rt_now w + interval) evs w of
             (w', evs') \<Rightarrow> result_loop f interval deadline evs' w')
      | Some dl \<Rightarrow>
          if dl - rt_now w \<le> 0 then Some (Expired, w, evs)
          else (case cf_wait f (rt_now w + min interval (dl - rt_now w)) evs w of
                  (w', evs') \<Rightarrow> result_loop f interval deadline evs' w'))"

text \<open>The \<open>except\<close> clauses of \<open>result\<close>.\<close>

definition result_except :: "caller \<Rightarrow> exn \<Rightarrow> kfut \<Rightarrow> world \<Rightarrow> exn \<times> kfut \<times> world" where
  "result_except c e kf w =
     (if catches [CancelledError] e then (e, kf, w)
      else if catches [KeyboardInterrupt] e then
        (case kf_cancel (Some ''keyboard interrupt'') kf w of
           (Inl x, kf', w') \<Rightarrow> (x, kf', w')
         | (Inr _, kf', w') \<Rightarrow> (e, kf', w'))
      else (if should_rewrite c w then prune_exn True e else e, kf, w))"

definition result_entry :: "int \<Rightarrow> tb_entry" where
  "result_entry line = entry ''koil.utils'' ''result'' True line"

definition result_raises ::
    "caller \<Rightarrow> exn \<Rightarrow> kfut \<Rightarrow> world \<Rightarrow> wevent list \<Rightarrow>
     ((exn + pyval) \<times> kfut \<times> caller \<times> world \<times> wevent list) option" where
  "result_raises c e kf w evs =
     (case result_except c e kf w of (x, kf', w') \<Rightarrow> Some (Inl x, kf', c, w', evs))"

definition kf_result ::
    "time option \<Rightarrow> time option \<Rightarrow> kfut \<Rightarrow> caller \<Rightarrow> world \<Rightarrow> wevent list \<Rightarrow>
     ((exn + pyval) \<times> kfut \<times> caller \<times> world \<times> wevent list) option" where
  "kf_result timeout poll_interval kf c w evs =
     (if (case timeout of None \<Rightarrow> False | Some t \<Rightarrow> t < 0)
      then Some (Inl (new_exn (result_entry 318) ValueError ''timeout must be non-negative''), kf, c, w, evs)
      else
        let interval = (case poll_interval of None \<Rightarrow> RESULT_POLL_INTERVAL | Some i \<Rightarrow> i);
            deadline = map_option (\<lambda>t. rt_now w + t) timeout
        in case result_loop (kf_future kf) interval deadline evs w of
          None \<Rightarrow> None
        | Some (Interrupted, w1, evs1) \<Rightarrow> 
            result_raises c (new_exn (result_entry 340) KeyboardInterrupt []) kf w1 evs1
        | Some (Expired, w1, evs1) \<Rightarrow>
            (case kf_timeout_expired c evs1 kf w1 of
               (Inl x, kf2, w2, evs2) \<Rightarrow> result_raises c (unwind (result_entry 336) x) kf2 w2 evs2
             | (Inr e, kf2, w2, evs2) \<Rightarrow> result_raises c (unwind (result_entry 336) e) kf2 w2 evs2)
        | Some (Completed, w1, evs1) \<Rightarrow>
            (case cf_result (kf_future kf) w1 of
               None \<Rightarrow> None
             | Some (Inl e) \<Rightarrow> result_raises c (unwind (result_entry 341) e) kf w1 evs1
             | Some (Inr (res, ctxt)) \<Rightarrow>
                 Some (Inr res, kf, c\<lparr>c_vars := set_items ctxt (c_vars c)\<rparr>, w1, evs1)))"

subsection \<open>Submitting\<close>

text \<open>
  The two functions differ in the task they start; \<open>fn\<close> and the lines name the one that runs.
  \<open>run_coroutine_threadsafe\<close> raises if the loop is closed. The new own event is created
  before the ambient one is looked at. \<open>call\<close> is what the call of the coroutine function
  with the given arguments raises, if anything.
\<close>

definition submit_sharing ::
    "bool \<Rightarrow> string \<Rightarrow> int \<times> int \<times> int \<Rightarrow> nat \<Rightarrow> (signal \<Rightarrow> exn option) option \<Rightarrow> time option \<Rightarrow>
     exn option \<Rightarrow> caller \<Rightarrow> world \<Rightarrow> (exn + kfut) \<times> world" where
  "submit_sharing iterates fn lines l signals timeout call c w =
     (case lines of (neg_line, cancelled_line, submit_line) \<Rightarrow>
      if (case timeout of None \<Rightarrow> False | Some t \<Rightarrow> t < 0)
      then (Inl (new_exn (entry ''koil.utils'' fn False neg_line) ValueError
              ''timeout must be non-negative''), w)
      else
        let ambient = ambient_event c;
            (own, w1) = event_init l w
        in if (case ambient of None \<Rightarrow> False | Some e \<Rightarrow> event_is_set e w1)
           then (Inl (new_exn (entry ''koil.utils'' fn False cancelled_line) ThreadCancelledError
                   ''Thread was cancelled''), w1)
           else
             let j = \<lparr>j_loop = l, j_ctx = c_vars c, j_koil = ambient_koil c, j_own = own,
                      j_ambient = ambient, j_timeout = timeout, j_signals = signals,
                      j_iterates = iterates, j_call_raises = call\<rparr>;
                 f = w_nraces w1
             in case call_soon_threadsafe (entry ''asyncio.tasks'' ''run_coroutine_threadsafe'' False 0)
                       l (CbSubmit f) w1 of
               Inl e \<Rightarrow> (Inl (unwind (entry ''koil.utils'' fn False submit_line) e), w1)
             | Inr w2 \<Rightarrow>
                 (Inr (kf_init f own),
                  w2\<lparr>w_races := (w_races w2)(f := new_race j), w_nraces := Suc f\<rparr>))"

definition run_async_sharing_context ::
    "nat \<Rightarrow> (signal \<Rightarrow> exn option) option \<Rightarrow> time option \<Rightarrow> exn option \<Rightarrow> caller \<Rightarrow> world \<Rightarrow> (exn + kfut) \<times> world" where
  "run_async_sharing_context l signals timeout call c w =
     submit_sharing False ''run_async_sharing_context'' (430, 458, 569) l signals timeout call c w"

definition iterate_async_sharing_context ::
    "nat \<Rightarrow> (signal \<Rightarrow> exn option) option \<Rightarrow> time option \<Rightarrow> exn option \<Rightarrow> caller \<Rightarrow> world \<Rightarrow> (exn + kfut) \<times> world" where
  "iterate_async_sharing_context l signals timeout call c w =
     submit_sharing True ''iterate_async_sharing_context'' (609, 621, 720) l signals timeout call c w"

subsection \<open>Closing an async generator\<close>

definition ACLOSE_TIMEOUT :: time where
  "ACLOSE_TIMEOUT = 5"

text \<open>
  \<open>has_aclose\<close>: the object has the attribute. \<open>close\<close>: how long the submitted \<open>aclose()\<close> takes and
  how it ends, \<open>None\<close> if it never does. The result says whether the close was skipped, left
  to the running loop, or submitted and waited for.
\<close>

datatype aclosed = NotClosed | Scheduled | Awaited

definition aclose_async_gen_threadsafe ::
    "bool \<Rightarrow> nat \<Rightarrow> time option \<Rightarrow> (time \<times> (exn + pyval)) option \<Rightarrow> caller \<Rightarrow> world \<Rightarrow>
     (exn + aclosed) \<times> world" where
  "aclose_async_gen_threadsafe has_aclose l timeout close c w =
     (if \<not> has_aclose then (Inr NotClosed, w)
      else if l_closed (rt_loops w l) then (Inr NotClosed, w)
      else if c_running c = Some l then (Inr Scheduled, w)
      else
        let limit = max 0 (case timeout of None \<Rightarrow> ACLOSE_TIMEOUT | Some t \<Rightarrow> t);
            (waited, res) =
              (case close of
                 Some (d, r) \<Rightarrow>
                   if d \<le> limit then (max 0 d, r)
                   else (limit, Inl (new_exn (cf_entry ''result'') TimeoutError []))
               | None \<Rightarrow> (limit, Inl (new_exn (cf_entry ''result'') TimeoutError [])));
            w' = w\<lparr>rt_now := rt_now w + waited\<rparr>
        in case res of
          Inr _ \<Rightarrow> (Inr Awaited, w')
        | Inl e \<Rightarrow>
            if catches [RuntimeError] e then (Inr Awaited, w')
            else if catches [CancelledError, FuturesCancelledError] e then (Inr Awaited, w')
            else if catches [TimeoutError] e then (Inr Awaited, w')
            else (Inl (unwind (entry ''koil.utils'' ''aclose_async_gen_threadsafe'' False 164) e), w'))"

text \<open>The predicates on functions are the ones of \<open>inspect\<close>, on the kinds of function koil tells apart.\<close>

datatype fkind = AsyncGenFunction | CoroutineFunction | GeneratorFunction | PlainFunction | OtherCallable

definition check_is_asyncgen :: "fkind \<Rightarrow> bool" where
  "check_is_asyncgen k = (if k = AsyncGenFunction then True else False)"

definition check_is_asyncfunc :: "fkind \<Rightarrow> bool" where
  "check_is_asyncfunc k = (if k = CoroutineFunction then True else False)"

definition check_is_syncgen :: "fkind \<Rightarrow> bool" where
  "check_is_syncgen k = (if k = GeneratorFunction then True else False)"

text \<open>\<open>inspect.isfunction\<close> holds of every function defined with \<open>def\<close>, async or generator or not.\<close>

definition check_is_syncfunc :: "fkind \<Rightarrow> bool" where
  "check_is_syncfunc k = (if k \<noteq> OtherCallable then True else False)"

subsection \<open>What the events leave alone\<close>

text \<open>
  The environment changes neither koil objects nor, short of a tick, the clock; a wait ends
  when the future is done or its time is up, never later.
\<close>

lemma exec_callback_frame [simp]:
  "rt_now (exec_callback l cb s) = rt_now s" "rt_koils (exec_callback l cb s) = rt_koils s"
  "rt_environ (exec_callback l cb s) = rt_environ s"
  "rt_rewrite_tracebacks (exec_callback l cb s) = rt_rewrite_tracebacks s"
  by (cases cb; simp)+

lemma run_ready_frame [simp]:
  "rt_now (run_ready l s) = rt_now s" "rt_koils (run_ready l s) = rt_koils s"
  "rt_environ (run_ready l s) = rt_environ s"
  "rt_rewrite_tracebacks (run_ready l s) = rt_rewrite_tracebacks s"
  by (simp_all add: run_ready_def split: list.splits)

lemma race_act_frame [simp]:
  "rt_now (race_act f ev w) = rt_now w" "rt_koils (race_act f ev w) = rt_koils w"
  "rt_environ (race_act f ev w) = rt_environ w"
  "rt_rewrite_tracebacks (race_act f ev w) = rt_rewrite_tracebacks w"
  by (simp_all add: race_act_def upd_race_def split: option.splits)

lemma loop_thread_ended_frame [simp]:
  "rt_now (loop_thread_ended l s) = rt_now s" "rt_environ (loop_thread_ended l s) = rt_environ s"
  "rt_rewrite_tracebacks (loop_thread_ended l s) = rt_rewrite_tracebacks s"
  by (simp_all add: loop_thread_ended_def)

lemma post_frame [simp]:
  "rt_now (loop_act_step l (Post cb) s) = rt_now s"
  "rt_koils (loop_act_step l (Post cb) s) = rt_koils s"
  "rt_environ (loop_act_step l (Post cb) s) = rt_environ s"
  "rt_rewrite_tracebacks (loop_act_step l (Post cb) s) = rt_rewrite_tracebacks s"
  by (simp_all add: call_soon_threadsafe_def)

lemma fire_timers_frame [simp]:
  "rt_now (fire_timers l w) = rt_now w" "rt_koils (fire_timers l w) = rt_koils w"
  "rt_environ (fire_timers l w) = rt_environ w" "w_sigint (fire_timers l w) = w_sigint w"
  "rt_rewrite_tracebacks (fire_timers l w) = rt_rewrite_tracebacks w"
  by (simp_all add: fire_timers_def upd_loop_def)

lemma turn_frame [simp]:
  "rt_now (turn l w) = rt_now w" "rt_koils (turn l w) = rt_koils w"
  "rt_environ (turn l w) = rt_environ w" "rt_rewrite_tracebacks (turn l w) = rt_rewrite_tracebacks w"
  by (simp_all add: turn_def split: list.splits callback.splits)

definition settings :: "world \<Rightarrow> (nat \<Rightarrow> koil) \<times> (string \<Rightarrow> string option) \<times> bool" where
  "settings w = (rt_koils w, rt_environ w, rt_rewrite_tracebacks w)"

interpretation environment: step_constant wstep settings
proof unfold_locales
  fix e s
  show "settings (wstep e s) = settings s"
    by (cases e) (simp_all add: settings_def del: loop_act_step.simps)
qed

lemmas settings_wstep [simp] = environment.step_obs

lemma wstep_now: "rt_now (wstep ev w) = (case ev of WTick d \<Rightarrow> rt_now w + max 0 d | _ \<Rightarrow> rt_now w)"
  by (cases ev) (simp_all del: loop_act_step.simps)

lemma settings_upd [simp]:
  "settings (w\<lparr>rt_now := n\<rparr>) = settings w" "settings (w\<lparr>w_sigint := b\<rparr>) = settings w"
  "settings (upd_loop l g w) = settings w"
  by (simp_all add: settings_def upd_loop_def)

lemma grace_settings: "settings w' = settings w \<Longrightarrow> cancel_grace k w' = cancel_grace k w"
  by (simp add: settings_def cancel_grace_def Let_def split: option.splits)

lemma rewrite_settings: "settings w' = settings w \<Longrightarrow> should_rewrite c w' = should_rewrite c w"
  by (simp add: settings_def should_rewrite_def split: option.splits)

lemma wait_until_settings: "wait_until P dl evs w = (w', evs') \<Longrightarrow> settings w' = settings w"
proof (induction P dl evs w rule: wait_until.induct)
  case (2 P dl ev evs w)
  then show ?case
    by (cases ev) (auto simp del: wstep.simps split: if_splits)
qed (auto split: if_splits)

lemma wait_until_now: "wait_until P dl evs w = (w', evs') \<Longrightarrow> rt_now w \<le> rt_now w' \<and> rt_now w' \<le> max (rt_now w) dl"
proof (induction P dl evs w rule: wait_until.induct)
  case (2 P dl ev evs w)
  then show ?case
    by (cases ev) (force simp del: wstep.simps simp: wstep_now split: if_splits)+
qed (auto split: if_splits)

lemma wait_until_ends:
  "(\<And>w n. P (w\<lparr>rt_now := n\<rparr>) = P w) \<Longrightarrow> wait_until P dl evs w = (w', evs') \<Longrightarrow> P w' \<or> dl \<le> rt_now w'"
proof (induction P dl evs w rule: wait_until.induct)
  case (2 P dl ev evs w)
  then show ?case
    by (cases ev) (auto simp del: wstep.simps split: if_splits)
qed (auto split: if_splits)

lemmas cf_wait_settings = wait_until_settings [where P = "future_done f" for f, folded cf_wait_def]
lemmas cf_wait_now = wait_until_now [where P = "future_done f" for f, folded cf_wait_def]

lemma cf_wait_ends: "cf_wait f dl evs w = (w', evs') \<Longrightarrow> future_done f w' \<or> dl \<le> rt_now w'"
  unfolding cf_wait_def by (erule wait_until_ends [rotated]) (simp add: future_done_def)

subsection \<open>Cancelling and waiting\<close>

lemma safe_set_event_eq [koil_simps]:
  "safe_set_event e w = Inr
     (let l = ev_loop (rt_events w e) in
      if l_closed (rt_loops w l) then w
      else upd_loop l (\<lambda>x. x\<lparr>l_ready := l_ready x @ [CbSetEvent e]\<rparr>) w)"
  by (simp add: safe_set_event_def event_set_def call_soon_threadsafe_def catches_def koil_simps Let_def)

lemma kf_cancel_eq [koil_simps]:
  "kf_cancel reason kf w =
     (if future_done (kf_future kf) w then (Inr False, kf, w)
      else (Inr True, kf\<lparr>kf_cancel_requested := True, kf_cancel_reason := reason\<rparr>,
        let e = kf_cancel_event kf; l = ev_loop (rt_events w e) in
        if l_closed (rt_loops w l) then w
        else upd_loop l (\<lambda>x. x\<lparr>l_ready := l_ready x @ [CbSetEvent e]\<rparr>) w))"
  by (simp add: kf_cancel_def koil_simps Let_def)

lemma kf_cancel_frame:
  assumes "kf_cancel reason kf w = (r, kf', w')"
  shows "settings w' = settings w \<and> rt_now w' = rt_now w \<and> w_races w' = w_races w \<and>
    w_sigint w' = w_sigint w \<and> kf_future kf' = kf_future kf"
  using assms by (auto simp: koil_simps Let_def upd_loop_def settings_def split: if_splits)

lemma kf_cancel_result: "\<exists>b kf' w'. kf_cancel reason kf w = (Inr b, kf', w')"
  by (auto simp: koil_simps)

text \<open>With a deadline the loop of \<open>result\<close> is left, and no later than the deadline.\<close>

definition left_ok :: "nat \<Rightarrow> time \<Rightarrow> world \<Rightarrow> waited \<times> world \<times> wevent list \<Rightarrow> bool" where
  "left_ok f dl w out \<longleftrightarrow>
     (case out of (why, w', evs') \<Rightarrow>
        rt_now w' \<le> max (rt_now w) dl \<and> settings w' = settings w \<and>
        (case why of
           Completed \<Rightarrow> future_done f w' \<and> \<not> w_sigint w'
         | Expired \<Rightarrow> \<not> future_done f w' \<and> dl \<le> rt_now w' \<and> \<not> w_sigint w'
         | Interrupted \<Rightarrow> True))"

lemma left_ok_now:
  "left_ok f dl w1 out \<Longrightarrow> rt_now w1 \<le> max (rt_now w) dl \<Longrightarrow> settings w1 = settings w \<Longrightarrow>
   left_ok f dl w out"
  by (auto simp: left_ok_def split: prod.splits waited.splits)

lemma result_loop_leaves:
  assumes "w_sigint w \<or> future_done f w \<or> dl \<le> rt_now w"
  shows "\<exists>out. result_loop f interval (Some dl) evs w = Some out \<and> left_ok f dl w out"
  using assms by (subst result_loop.simps) (auto simp: left_ok_def future_done_def)

lemma result_loop_deadline:
  assumes "0 < interval" and "dl - rt_now w \<le> of_nat n * interval"
  shows "\<exists>out. result_loop f interval (Some dl) evs w = Some out \<and> left_ok f dl w out"
  using assms(2)
proof (induction n arbitrary: w evs)
  case 0
  then show ?case by (intro result_loop_leaves) simp
next
  case (Suc n)
  let ?slice = "rt_now w + min interval (dl - rt_now w)"
  show ?case
  proof (cases "w_sigint w \<or> future_done f w \<or> dl \<le> rt_now w")
    case True
    then show ?thesis by (rule result_loop_leaves)
  next
    case False
    obtain w1 evs1 where wait: "cf_wait f ?slice evs w = (w1, evs1)" by fastforce
    have "future_done f w1 \<or> dl \<le> rt_now w1 \<or> dl - rt_now w1 \<le> of_nat n * interval"
      using cf_wait_ends [OF wait] Suc.prems
      by (auto simp: min_def algebra_simps split: if_splits)
    then obtain out where out: "result_loop f interval (Some dl) evs1 w1 = Some out" "left_ok f dl w1 out"
      using Suc.IH result_loop_leaves by metis
    have "rt_now w1 \<le> max (rt_now w) dl"
      using cf_wait_now [OF wait] by (auto simp: max_def min_def split: if_splits)
    with out(2) have "left_ok f dl w out" using cf_wait_settings [OF wait] by (rule left_ok_now)
    moreover have "result_loop f interval (Some dl) evs w = Some out"
      using False wait out(1) by (subst result_loop.simps) auto
    ultimately show ?thesis by blast
  qed
qed

lemma result_loop_bounded:
  assumes "0 < interval"
  shows "\<exists>out. result_loop f interval (Some dl) evs w = Some out \<and> left_ok f dl w out"
proof -
  obtain n where "dl - rt_now w < of_nat n * interval"
    using ex_less_of_nat_mult [OF assms] by blast
  then show ?thesis using result_loop_deadline [OF assms less_imp_le] by blast
qed

text \<open>What \<open>result\<close> raises keeps its class and message; raising it takes no time.\<close>

lemma result_raises_eq:
  "\<exists>x kf' w'. result_raises c e kf w evs = Some (Inl x, kf', c, w', evs) \<and> ecls x = ecls e \<and>
     rt_now w' = rt_now w \<and> w_races w' = w_races w \<and> kf_future kf' = kf_future kf"
proof -
  obtain b kf' w' where cancel: "kf_cancel (Some ''keyboard interrupt'') kf w = (Inr b, kf', w')"
    using kf_cancel_result by blast
  from kf_cancel_frame [OF cancel] show ?thesis
    by (auto simp: result_raises_def result_except_def cancel)
qed

lemma kf_timeout_expired_eq:
  assumes "kf_timeout_expired c evs kf w = (r, kf', w', evs')"
  shows "rt_now w' \<le> rt_now w + max 0 (cancel_grace (ambient_koil c) w) \<and> kf_future kf' = kf_future kf \<and>
    (case r of Inl x \<Rightarrow> ecls x = KeyboardInterrupt | Inr x \<Rightarrow> ecls x = KoilTimeoutError)"
proof -
  obtain b kf1 w1 where cancel: "kf_cancel (Some ''timeout'') (kf\<lparr>kf_timed_out := True\<rparr>) w = (Inr b, kf1, w1)"
    using kf_cancel_result by blast
  note frame = kf_cancel_frame [OF cancel]
  obtain w2 evs2 where wait: "cf_wait (kf_future kf1) (rt_now w1 + cancel_grace (ambient_koil c) w1) evs w1
    = (w2, evs2)" by fastforce
  have "cancel_grace (ambient_koil c) w1 = cancel_grace (ambient_koil c) w"
    using frame by (intro grace_settings) simp
  with cf_wait_now [OF wait] frame have "rt_now w2 \<le> rt_now w + max 0 (cancel_grace (ambient_koil c) w)"
    by (auto simp: max_def split: if_splits)
  with assms wait frame show ?thesis
    by (auto simp: kf_timeout_expired_def cancel Let_def split: if_splits)
qed

lemma cf_result_done: "future_done f w \<Longrightarrow> \<exists>r. cf_result f w = Some r \<and>
   (case r of Inr (v, c) \<Rightarrow> r_phase (w_races w f) = Ended (TaskReturned v) | Inl x \<Rightarrow> True)"
  by (auto simp: future_done_def cf_result_def split: phase.splits task_end.splits)

lemma future_done_races: "w_races w' = w_races w \<Longrightarrow> future_done f w' = future_done f w"
  by (simp add: future_done_def)

subsection \<open>Invariants of the world\<close>

text \<open>
  What every event keeps, and what does not depend on the clock or a pending Ctrl+C, is kept
  by everything that waits: by \<open>cancel\<close>, by \<open>result\<close>, whatever its outcome.
\<close>

locale world_invariant = step_invariant wstep good
  for good :: "world \<Rightarrow> bool" +
  assumes good_now: "good w \<Longrightarrow> good (w\<lparr>rt_now := n\<rparr>)"
    and good_sigint: "good w \<Longrightarrow> good (w\<lparr>w_sigint := b\<rparr>)"
begin

lemma wait_until_good: "wait_until P dl evs w = (w', evs') \<Longrightarrow> good w \<Longrightarrow> good w'"
proof (induction P dl evs w rule: wait_until.induct)
  case (2 P dl ev evs w)
  then show ?case
    using step_good [of w ev]
    by (cases ev) (auto simp del: wstep.simps simp: good_now split: if_splits)
qed (auto simp: good_now split: if_splits)

lemma cf_wait_good: "cf_wait f dl evs w = (w', evs') \<Longrightarrow> good w \<Longrightarrow> good w'"
  unfolding cf_wait_def by (rule wait_until_good)

lemma result_loop_keeps: "result_loop f i dl evs w = Some out \<Longrightarrow> good w \<longrightarrow> good (fst (snd out))"
proof (erule result_loop.raw_induct
    [where P = "\<lambda>f i dl evs w out. good w \<longrightarrow> good (fst (snd out))", rotated])
  fix rl f i dl evs w out
  assume IH: "\<And>f i dl evs w y. rl f i dl evs w = Some y \<Longrightarrow> good w \<longrightarrow> good (fst (snd y))"
    and "(if w_sigint w then Some (Interrupted, w\<lparr>w_sigint := False\<rparr>, evs)
      else if future_done f w then Some (Completed, w, evs)
      else case dl of
        None \<Rightarrow> (case cf_wait f (rt_now w + i) evs w of (w', evs') \<Rightarrow> rl f i dl evs' w')
      | Some d \<Rightarrow>
          if d - rt_now w \<le> 0 then Some (Expired, w, evs)
          else (case cf_wait f (rt_now w + min i (d - rt_now w)) evs w of
                  (w', evs') \<Rightarrow> rl f i dl evs' w')) = Some out"
  then show "good w \<longrightarrow> good (fst (snd out))"
    by (auto dest!: IH dest: cf_wait_good intro: good_sigint split: if_splits option.splits prod.splits)
qed

lemma result_loop_good: "result_loop f i dl evs w = Some (why, w', evs') \<Longrightarrow> good w \<Longrightarrow> good w'"
  using result_loop_keeps by fastforce

lemma kf_cancel_good:
  assumes "kf_cancel reason kf w = (r, kf', w')" and "good w"
  shows "good w'"
proof -
  let ?l = "ev_loop (rt_events w (kf_cancel_event kf))"
  have "w' = w \<or> w' = wstep (WPost ?l (CbSetEvent (kf_cancel_event kf))) w"
    using assms(1) by (auto simp: kf_cancel_eq Let_def call_soon_threadsafe_def split: if_splits)
  with assms(2) step_good show ?thesis by metis
qed

lemma result_raises_good: "result_raises c e kf w evs = Some (r, kf', c', w', evs') \<Longrightarrow> good w \<Longrightarrow> good w'"
  by (auto simp: result_raises_def result_except_def intro: kf_cancel_good
      split: if_splits prod.splits sum.splits)

lemma kf_timeout_expired_good:
  "kf_timeout_expired c evs kf w = (r, kf', w', evs') \<Longrightarrow> good w \<Longrightarrow> good w'"
  by (auto simp: kf_timeout_expired_def Let_def intro: kf_cancel_good good_sigint
      dest!: cf_wait_good split: if_splits prod.splits sum.splits)

lemma kf_result_good: "kf_result t p kf c w evs = Some (r, kf', c', w', evs') \<Longrightarrow> good w \<Longrightarrow> good w'"
  by (auto simp: kf_result_def Let_def dest!: result_raises_good result_loop_good kf_timeout_expired_good
      split: if_splits prod.splits sum.splits option.splits waited.splits)

end

text \<open>The task of a future is always in a state its race can reach.\<close>

definition race_at :: "nat \<Rightarrow> job \<Rightarrow> world \<Rightarrow> bool" where
  "race_at f j w \<longleftrightarrow>
     reach (race_sys :: world \<times> race_ev \<Rightarrow> race \<Rightarrow> race option) (new_race j) (w_races w f)"

lemma race_act_at: "race_at f j w \<Longrightarrow> race_at f j (race_act f' ev w)"
  by (auto simp: race_at_def race_act_def upd_race_def race_sys_def
      intro: reach_step [where e = "(w, ev)"] split: option.splits)

lemma w_races_frame [simp]:
  "w_races (upd_loop l g w) = w_races w" "w_races (exec_callback l cb w) = w_races w"
  "w_races (run_ready l w) = w_races w" "w_races (fire_timers l w) = w_races w"
  "w_races (loop_thread_ended l w) = w_races w"
proof -
  show upd: "w_races (upd_loop l g w) = w_races w" for g w by (simp add: upd_loop_def)
  show exec: "w_races (exec_callback l cb w) = w_races w" for cb w by (cases cb) (simp_all add: upd)
  show "w_races (run_ready l w) = w_races w" by (simp add: run_ready_def exec upd split: list.splits)
  show "w_races (fire_timers l w) = w_races w" by (simp add: fire_timers_def upd split: prod.splits)
  show "w_races (loop_thread_ended l w) = w_races w" by (simp add: loop_thread_ended_def upd)
qed

lemma race_at_step: "race_at f j w \<Longrightarrow> race_at f j (wstep ev w)"
proof (cases ev)
  case (WTurn l)
  assume "race_at f j w"
  then have "race_at f j (run_ready l w)" by (simp add: race_at_def)
  with \<open>race_at f j w\<close> WTurn show ?thesis
    by (auto simp: turn_def race_act_at split: list.splits callback.splits)
qed (auto simp: race_act_at, auto simp: race_at_def call_soon_threadsafe_def)

interpretation races: world_invariant "race_at f j" for f j
  by unfold_locales (simp_all add: race_at_step, simp_all add: race_at_def)

text \<open>So the value that \<open>result\<close> returns is the value that the work's task returned.\<close>

lemma race_at_value:
  assumes "race_at f j w" and "r_phase (w_races w f) = Ended (TaskReturned v)"
  shows "r_done (w_races w f) Work = Some (TaskReturned v) \<and> r_job (w_races w f) = j"
proof -
  have settle_ret: "settle (Inl x) \<noteq> TaskReturned v" for x by (simp add: settle_def)
  have emit_ret: "emit_then i l sg l' res = (TaskReturned v, sent) \<Longrightarrow> res = Inr v" for i l sg l' res sent
    by (auto simp: emit_then_def settle_ret split: prod.splits option.splits sum.splits)
  have "r_job (w_races w f) = j"
    using reach_job [OF assms(1) [unfolded race_at_def]] by (simp add: new_race_def)
  moreover from reach_ended [OF assms(1) [unfolded race_at_def] assms(2)]
  have "r_done (w_races w f) Work = Some (TaskReturned v)"
    by (auto simp: ended_ok_def settle_ret settle_ret [symmetric] verdict_def conclude_run_def conclude_iterate_def Let_def
        dest!: emit_ret split: if_splits option.splits task_end.splits)
  ultimately show ?thesis by simp
qed

lemma submit_sharing_race:
  assumes "submit_sharing it fn ls l sg timeout call c w = (Inr kf, w')"
  shows "w_races w' (w_nraces w) =
    new_race \<lparr>j_loop = l, j_ctx = c_vars c, j_koil = ambient_koil c, j_own = rt_nevents w,
      j_ambient = ambient_event c, j_timeout = timeout, j_signals = sg, j_iterates = it,
      j_call_raises = call\<rparr>"
  using assms
  by (auto simp: submit_sharing_def event_init_def Let_def upd_loop_def
      elim!: call_soon_threadsafe_InrE split: prod.splits if_splits sum.splits)

text \<open>A call that its own arguments make fail never returns a value.\<close>

definition bad_call :: "race \<Rightarrow> bool" where
  "bad_call r \<longleftrightarrow> (\<forall>v. j_call_raises (r_job r) \<noteq> None \<longrightarrow> r_done r Work \<noteq> Some (TaskReturned v))"

interpretation bad_call: guarded_invariant race_sys bad_call
proof unfold_locales
  fix r :: race and e :: "'a rt_scheme \<times> race_ev" and r'
  assume ok: "bad_call r" and st: "race_sys e r = Some r'"
  obtain s ev where e: "e = (s, ev)" by fastforce
  have "work_end j n res \<noteq> TaskReturned v" if "j_call_raises j \<noteq> None" for j n res v
    using that by (auto simp: work_end_def settle_def split: if_splits)
  moreover have "settle (Inl x) \<noteq> TaskReturned v" for x v by (simp add: settle_def)
  ultimately show "bad_call r'"
    using ok st race_next_job [of s ev r r'] unfolding e
    by (cases ev)
      (auto simp: bad_call_def race_sys_def Let_def shutdown_def
        split: if_splits option.splits phase.splits list.splits prod.splits)
qed

lemma race_at_bad_call:
  "race_at f j w \<Longrightarrow> j_call_raises j \<noteq> None \<Longrightarrow> r_phase (w_races w f) \<noteq> Ended (TaskReturned v)"
  using bad_call.reach_good [of "new_race j" "w_races w f"] race_at_value [of f j w v]
  by (auto simp: race_at_def bad_call_def new_race_def)

text \<open>
  A value that \<open>result\<close> returns is that of the ended task, whose context it copied.
\<close>

lemma kf_result_InrD:
  assumes "kf_result timeout p kf c w evs = Some (Inr v, kf', c', w', evs')"
  shows "r_phase (w_races w' (kf_future kf)) = Ended (TaskReturned v) \<and>
    c' = c\<lparr>c_vars := set_items (r_ctx (w_races w' (kf_future kf))) (c_vars c)\<rparr>"
  using assms
  by (auto simp: kf_result_def Let_def result_raises_def cf_result_def
      split: if_splits option.splits prod.splits sum.splits waited.splits phase.splits task_end.splits)

text \<open>\<open>result\<close> of a future that is done already.\<close>

lemma result_loop_done:
  "future_done f w \<Longrightarrow> \<not> w_sigint w \<Longrightarrow> result_loop f i dl evs w = Some (Completed, w, evs)"
  by (subst result_loop.simps) simp

definition nonneg :: "time option \<Rightarrow> bool" where
  "nonneg timeout = (case timeout of None \<Rightarrow> True | Some t \<Rightarrow> 0 \<le> t)"

lemma kf_result_returned:
  assumes "r_phase (w_races w (kf_future kf)) = Ended (TaskReturned v)" and "\<not> w_sigint w" and "nonneg timeout"
  shows "kf_result timeout p kf c w evs =
    Some (Inr v, kf, c\<lparr>c_vars := set_items (r_ctx (w_races w (kf_future kf))) (c_vars c)\<rparr>, w, evs)"
proof -
  have "future_done (kf_future kf) w" using assms(1) by (simp add: future_done_def)
  with assms show ?thesis
    by (auto simp: kf_result_def nonneg_def result_loop_done cf_result_def split: option.splits)
qed

lemma kf_result_raised:
  assumes "r_phase (w_races w (kf_future kf)) = Ended (TaskRaised e)" and "\<not> w_sigint w" and "nonneg timeout"
  shows "kf_result timeout p kf c w evs =
    result_raises c (unwind (result_entry 341) (unwind (cf_entry ''result'')
      (unwind (cf_entry ''__get_result'') (convert_future_exc e)))) kf w evs"
proof -
  have "future_done (kf_future kf) w" using assms(1) by (simp add: future_done_def)
  with assms show ?thesis
    by (auto simp: kf_result_def nonneg_def result_loop_done cf_result_def split: option.splits)
qed

lemma result_raises_plain:
  "\<not> catches [CancelledError, KeyboardInterrupt] e \<Longrightarrow>
   result_raises c e kf w evs = Some (Inl (if should_rewrite c w then prune_exn True e else e), kf, c, w, evs)"
  by (auto simp: result_raises_def result_except_def catches_def)

text \<open>Pruning at a boundary that hidden frames separate from visible ones.\<close>

definition hidden_entries :: "tb_entry list \<Rightarrow> bool" where
  "hidden_entries tb = list_all (\<lambda>t. is_hidden t = Some True) tb"

definition user_entries :: "tb_entry list \<Rightarrow> bool" where
  "user_entries tb \<longleftrightarrow> tb \<noteq> [] \<and> list_all visible tb"

lemma visible_split:
  assumes "hidden_entries hs" and "user_entries tb"
  shows "filter visible (hs @ tb) = tb" and "\<forall>t \<in> set (hs @ tb). is_hidden t \<noteq> None"
    and "\<exists>t \<in> set (hs @ tb). visible t"
  using assms
  by (auto simp: hidden_entries_def user_entries_def list_all_iff visible_def filter_empty_conv
      intro: hd_in_set)

lemma pruned_boundary: "hidden_entries hs \<Longrightarrow> user_entries tb \<Longrightarrow> pruned True (b # hs @ tb) = b # tb"
  using visible_split [of hs tb] by (simp add: pruned_def testable_def informative_def)

lemma pruned_no_boundary: "hidden_entries hs \<Longrightarrow> user_entries tb \<Longrightarrow> pruned False (hs @ tb) = tb"
  using visible_split [of hs tb] by (simp add: pruned_def testable_def informative_def)

lemma hidden_entries_simps [simp]:
  "hidden_entries []" "hidden_entries (entry m fn True l # tb) = hidden_entries tb"
  "hidden_entries (cf_entry fn # tb) = hidden_entries tb"
  "hidden_entries (passed_entry l # tb) = hidden_entries tb"
  "hidden_entries (result_entry l # tb) = hidden_entries tb"
  by (simp_all add: hidden_entries_def is_hidden_def cf_entry_def passed_entry_def result_entry_def
      entry_def hidden_modules_def)

text \<open>\<open>result\<close> after its loop has ended because the future is done.\<close>

lemma kf_result_completed:
  assumes "result_loop (kf_future kf) (case p of None \<Rightarrow> RESULT_POLL_INTERVAL | Some i \<Rightarrow> i) (Some (rt_now w + t)) evs w =
      Some (Completed, w1, evs1)" and "future_done (kf_future kf) w1" and "0 \<le> t"
  shows "\<exists>r kf' c' w'. kf_result (Some t) p kf c w evs = Some (r, kf', c', w', evs1) \<and> rt_now w' = rt_now w1 \<and>
    (case r of Inr v \<Rightarrow> r_phase (w_races w' (kf_future kf)) = Ended (TaskReturned v)
     | Inl x \<Rightarrow> future_done (kf_future kf) w')"
proof -
  obtain r where r: "cf_result (kf_future kf) w1 = Some r"
    "case r of Inr (v, c) \<Rightarrow> r_phase (w_races w1 (kf_future kf)) = Ended (TaskReturned v) | Inl x \<Rightarrow> True"
    using cf_result_done assms(2) by blast
  show ?thesis
  proof (cases r)
    case (Inl e)
    obtain x kf' w' where "result_raises c (unwind (result_entry 341) e) kf w1 evs1 = Some (Inl x, kf', c, w', evs1)"
      "rt_now w' = rt_now w1" "w_races w' = w_races w1"
      using result_raises_eq by metis
    with r(1) Inl assms future_done_races [of w' w1] show ?thesis by (simp add: kf_result_def)
  next
    case (Inr vc)
    with r assms show ?thesis by (cases vc) (simp add: kf_result_def)
  qed
qed

subsection \<open>Properties\<close>

text \<open>
  C5: \<open>result(timeout=t)\<close> always returns, whatever the task and the other threads do, at the
  latest one grace period after the deadline. A value it returns is the value the task
  returned; and if the task is still not done, it raises \<open>KoilTimeoutError\<close>, or
  \<open>KeyboardInterrupt\<close> when the user pressed Ctrl+C.
\<close>

theorem kf_result_bounded:
  assumes "0 \<le> t" and "case p of None \<Rightarrow> True | Some i \<Rightarrow> 0 < i"
  shows "\<exists>r kf' c' w' evs'. kf_result (Some t) p kf c w evs = Some (r, kf', c', w', evs') \<and>
    rt_now w' \<le> rt_now w + t + max 0 (cancel_grace (ambient_koil c) w) \<and>
    (case r of Inr v \<Rightarrow> r_phase (w_races w' (kf_future kf)) = Ended (TaskReturned v)
     | Inl x \<Rightarrow> future_done (kf_future kf) w' \<or> ecls x = KoilTimeoutError \<or> ecls x = KeyboardInterrupt)"
proof -
  let ?i = "case p of None \<Rightarrow> RESULT_POLL_INTERVAL | Some i \<Rightarrow> i"
  have "0 < ?i" using assms(2) by (auto simp: RESULT_POLL_INTERVAL_def split: option.splits)
  then obtain why w1 evs1 where
    loop: "result_loop (kf_future kf) ?i (Some (rt_now w + t)) evs w = Some (why, w1, evs1)"
      "left_ok (kf_future kf) (rt_now w + t) w (why, w1, evs1)"
    using result_loop_bounded by (metis prod_cases3)
  have now: "rt_now w1 \<le> rt_now w + t" and same: "settings w1 = settings w"
    using loop(2) assms(1) by (auto simp: left_ok_def)
  define g where "g = max 0 (cancel_grace (ambient_koil c) w)"
  have g: "0 \<le> g" "max 0 (cancel_grace (ambient_koil c) w1) = g"
    using grace_settings [OF same] by (simp_all add: g_def)
  show ?thesis
  proof (cases why)
    case Completed
    with loop(2) have "future_done (kf_future kf) w1" by (simp add: left_ok_def)
    from kf_result_completed [of kf p w t evs w1 evs1 c, OF _ this assms(1)] loop(1) Completed
    obtain r kf' c' w' where "kf_result (Some t) p kf c w evs = Some (r, kf', c', w', evs1)" "rt_now w' = rt_now w1"
      "case r of Inr v \<Rightarrow> r_phase (w_races w' (kf_future kf)) = Ended (TaskReturned v)
       | Inl x \<Rightarrow> future_done (kf_future kf) w'" by blast
    with now g(1) show ?thesis by (auto simp flip: g_def split: sum.splits)
  next
    case Expired
    obtain r kf2 w2 evs2 where ex: "kf_timeout_expired c evs1 kf w1 = (r, kf2, w2, evs2)"
      using prod_cases4 by blast
    obtain e where e: "r = Inl e \<or> r = Inr e" by (cases r) auto
    obtain x kf' w' where "result_raises c (unwind (result_entry 336) e) kf2 w2 evs2 = Some (Inl x, kf', c, w', evs2)"
      "rt_now w' = rt_now w2" "ecls x = ecls e"
      using result_raises_eq [of c "unwind (result_entry 336) e" kf2 w2 evs2] by auto
    with Expired e kf_timeout_expired_eq [OF ex] now g assms(1) show ?thesis
      by (auto simp: kf_result_def loop(1) ex simp flip: g_def)
  next
    case Interrupted
    obtain x kf' w' where "result_raises c (new_exn (result_entry 340) KeyboardInterrupt []) kf w1 evs1
        = Some (Inl x, kf', c, w', evs1)" "rt_now w' = rt_now w1" "ecls x = KeyboardInterrupt"
      using result_raises_eq [of c "new_exn (result_entry 340) KeyboardInterrupt []" kf w1 evs1] by auto
    with Interrupted now g assms(1) show ?thesis
      by (simp add: kf_result_def loop(1) flip: g_def)
  qed
qed

text \<open>
  The result of a task that has returned. \<open>result\<close> gives its value, even with
  \<open>timeout=0\<close>, without waiting, and copies the task's context into the caller's: a variable
  the task's context has reads as it did at the end of the task, any other one as before.
\<close>

lemma kf_result_value:
  assumes "r_phase (w_races w (kf_future kf)) = Ended (TaskReturned v)" and "\<not> w_sigint w"
    and "nonneg timeout" and "ctxt = r_ctx (w_races w (kf_future kf))" and "ctx_wf ctxt"
  shows "\<exists>c'. kf_result timeout p kf c w evs = Some (Inr v, kf, c', w, evs) \<and>
    (\<forall>x. ctx_get (c_vars c') x =
       (if x \<in> fst ` set ctxt then ctx_get ctxt x else ctx_get (c_vars c) x))"
  using kf_result_returned [OF assms(1-3)] ctx_get_set_items [OF assms(5)] assms(4) by simp

text \<open>
  The exception of a coroutine as \<open>result\<close> raises it. Of all the frames it has gathered on
  its way (the task's, the ones of \<open>concurrent.futures\<close> and koil's own) exactly one koil frame
  is left, that of \<open>result\<close>, in front of the coroutine's own frames; class and message are
  unchanged, also for a \<open>TimeoutError\<close> that the coroutine itself raised.
\<close>

lemma kf_result_traceback:
  assumes "r_phase (w_races w (kf_future kf)) =
      Ended (TaskRaised (unwind (passed_entry l) (unwind (entry ''koil.utils'' ''context_future'' True l') e)))"
    and "\<not> w_sigint w" and "nonneg timeout"
    and "\<not> catches [CancelledError, KeyboardInterrupt] e" and "ecls e \<noteq> FuturesCancelledError"
    and "should_rewrite c w" and "user_entries (etb e)"
  shows "\<exists>x. kf_result timeout p kf c w evs = Some (Inl x, kf, c, w, evs) \<and>
    ecls x = ecls e \<and> emsg x = emsg e \<and> etb x = result_entry 341 # etb e"
proof -
  let ?hs = "[cf_entry ''result'', cf_entry ''__get_result'', passed_entry l,
    entry ''koil.utils'' ''context_future'' True l']"
  have "pruned True (result_entry 341 # ?hs @ etb e) = result_entry 341 # etb e"
    by (rule pruned_boundary) (simp_all add: assms(7))
  then show ?thesis
    using assms(4-6)
    by (simp add: kf_result_raised [OF assms(1-3)] result_raises_plain convert_future_exc_def)
qed

lemma wstep_sigint: "w_sigint w \<Longrightarrow> w_sigint (wstep ev w)"
proof -
  have more: "w_sigint (s\<lparr>rt_events := x\<rparr>) = w_sigint s" "w_sigint (upd_loop l g s) = w_sigint s" for x l g s
    by (simp_all add: upd_loop_def)
  have exec: "w_sigint (exec_callback l cb s) = w_sigint s" for l cb s
    by (cases cb) (simp_all add: more)
  have ready: "w_sigint (run_ready l s) = w_sigint s" for l s
    by (simp add: run_ready_def exec more split: list.splits)
  have act: "w_sigint (race_act f e s) = w_sigint s" for f e s
    by (simp add: race_act_def upd_race_def split: option.splits)
  show "w_sigint w \<Longrightarrow> w_sigint (wstep ev w)"
    by (cases ev)
      (simp_all add: turn_def ready act loop_thread_ended_def call_soon_threadsafe_def more
        split: list.splits callback.splits)
qed

lemma wait_until_sigint: "wait_until P dl evs w = (w', evs') \<Longrightarrow> w_sigint w \<Longrightarrow> w_sigint w'"
proof (induction P dl evs w rule: wait_until.induct)
  case (2 P dl ev evs w)
  then show ?case
    using wstep_sigint [of w ev] by (cases ev) (auto simp del: wstep.simps split: if_splits)
qed (auto split: if_splits)

lemmas cf_wait_sigint = wait_until_sigint [where P = "future_done f" for f, folded cf_wait_def]

lemma result_loop_interrupted:
  assumes "0 < i" and "case dl of None \<Rightarrow> True | Some d \<Rightarrow> rt_now w < d"
    and "\<not> future_done f w" and "\<not> w_sigint w"
  shows "\<exists>w' evs'. result_loop f i dl (WSigint # evs) w = Some (Interrupted, w', evs') \<and>
    rt_now w' \<le> rt_now w + i"
proof -
  define slice where "slice = rt_now w + (case dl of None \<Rightarrow> i | Some d \<Rightarrow> min i (d - rt_now w))"
  obtain w1 evs1 where wait: "cf_wait f slice (WSigint # evs) w = (w1, evs1)" by fastforce
  have le: "rt_now w < slice" "slice \<le> rt_now w + i"
    using assms(1,2) by (auto simp: slice_def split: option.splits)
  have "cf_wait f slice evs (w\<lparr>w_sigint := True\<rparr>) = (w1, evs1)"
    using wait le assms(3) by (simp add: cf_wait_def)
  then have sig: "w_sigint w1" by (rule cf_wait_sigint) simp
  have "rt_now w1 \<le> rt_now w + i" using cf_wait_now [OF wait] le by (auto simp: max_def split: if_splits)
  moreover have "result_loop f i dl (WSigint # evs) w = result_loop f i dl evs1 w1"
    using wait assms(2-4) by (subst result_loop.simps) (auto simp: slice_def split: option.splits)
  moreover have "result_loop f i dl evs1 w1 = Some (Interrupted, w1\<lparr>w_sigint := False\<rparr>, evs1)"
    using sig by (subst result_loop.simps) simp
  ultimately show ?thesis by simp
qed

text \<open>
  C20: Ctrl+C during a blocking \<open>result()\<close>. The \<open>KeyboardInterrupt\<close> is raised within one poll
  interval, whatever the task does; and if the task is not done by then, it has been asked
  to cancel, with the reason on record and its own cancel event on its way to the loop.
\<close>

theorem kf_result_interrupt:
  assumes "\<not> future_done (kf_future kf) w" and "\<not> w_sigint w" and "0 < i"
    and "case timeout of None \<Rightarrow> True | Some t \<Rightarrow> 0 < t"
  shows "\<exists>x kf' w' evs'. kf_result timeout (Some i) kf c w (WSigint # evs) = Some (Inl x, kf', c, w', evs') \<and>
    ecls x = KeyboardInterrupt \<and> rt_now w' \<le> rt_now w + i \<and>
    (future_done (kf_future kf) w' \<or>
     kf_cancel_requested kf' \<and> kf_cancel_reason kf' = Some ''keyboard interrupt'' \<and>
     (let l = ev_loop (rt_events w' (kf_cancel_event kf)) in
      l_closed (rt_loops w' l) \<or> CbSetEvent (kf_cancel_event kf) \<in> set (l_ready (rt_loops w' l))))"
proof -
  have pos: "\<not> (case timeout of None \<Rightarrow> False | Some t \<Rightarrow> t < 0)"
    "case map_option (\<lambda>t. rt_now w + t) timeout of None \<Rightarrow> True | Some d \<Rightarrow> rt_now w < d"
    using assms(4) by (auto split: option.splits)
  obtain w1 evs1 where "result_loop (kf_future kf) i (map_option (\<lambda>t. rt_now w + t) timeout) (WSigint # evs) w
      = Some (Interrupted, w1, evs1)" and now: "rt_now w1 \<le> rt_now w + i"
    using result_loop_interrupted [OF assms(3) pos(2) assms(1,2)] by blast
  then have "kf_result timeout (Some i) kf c w (WSigint # evs) =
      result_raises c (new_exn (result_entry 340) KeyboardInterrupt []) kf w1 evs1"
    using pos(1) by (simp add: kf_result_def)
  moreover have "\<not> catches [CancelledError] (new_exn t KeyboardInterrupt [])"
    "catches [KeyboardInterrupt] (new_exn t KeyboardInterrupt [])" for t
    by (simp_all add: catches_def koil_simps)
  ultimately show ?thesis
    using now by (auto simp: result_raises_def result_except_def kf_cancel_eq Let_def future_done_def
        upd_loop_def split: if_splits)
qed

text \<open>
  Two states of which the second has one more callback at the end of a loop's queue, setting
  the event \<open>own\<close>: the loop takes them to states that agree on every other event.
\<close>

definition ahead_by_set :: "nat \<Rightarrow> nat \<Rightarrow> 'z rt_scheme \<Rightarrow> 'z rt_scheme \<Rightarrow> bool" where
  "ahead_by_set l own s1 s2 \<longleftrightarrow>
     l_closed (rt_loops s1 l) = l_closed (rt_loops s2 l) \<and>
     (l_ready (rt_loops s2 l) = l_ready (rt_loops s1 l) @ [CbSetEvent own] \<or>
      l_ready (rt_loops s2 l) = l_ready (rt_loops s1 l)) \<and>
     (\<forall>e. e \<noteq> own \<longrightarrow> event_is_set e s1 = event_is_set e s2)"

lemma ahead_by_set_ready:
  "ahead_by_set l own s1 s2 \<Longrightarrow> ahead_by_set l own (run_ready l s1) (run_ready l s2)"
  unfolding ahead_by_set_def
  by (cases "l_ready (rt_loops s1 l)") (auto simp: run_ready_def event_is_set_exec simp del: exec_callback.simps)

lemma ahead_by_set_run:
  "ahead_by_set l own s1 s2 \<Longrightarrow> ahead_by_set l own ((run_ready l ^^ n) s1) ((run_ready l ^^ n) s2)"
  by (induction n) (simp_all add: ahead_by_set_ready)

lemma submit_sharing_InrD:
  assumes "submit_sharing it fn ls l sg timeout call c w = (Inr kf, w')"
  shows "kf = kf_init (w_nraces w) (rt_nevents w) \<and> ev_loop (rt_events w' (rt_nevents w)) = l \<and>
    \<not> l_closed (rt_loops w' l) \<and> r_phase (w_races w' (w_nraces w)) = NotStarted"
  using assms
  by (auto simp: submit_sharing_def event_init_def Let_def new_race_def upd_loop_def
      elim!: call_soon_threadsafe_InrE split: prod.splits if_splits sum.splits)

text \<open>
  C11: cancelling a future is private to it. After a coroutine was submitted under some
  ambient cancel event (that of an enclosing worker), cancelling its future leaves that
  event alone: however far the loop then works its queue off, \<open>check_cancelled\<close> says in the
  scope what it would have said without the cancellation, while the future counts as
  cancelled.
\<close>

theorem future_cancel_is_private:
  assumes "run_async_sharing_context l sg timeout call c w = (Inr kf, w1)"
    and "ambient_event c = Some a" and "a < rt_nevents w"
    and "kf_cancel reason kf w1 = (r, kf', w2)"
  shows "check_cancelled c ((run_ready l ^^ n) w2) = check_cancelled c ((run_ready l ^^ n) w1) \<and>
    r = Inr True \<and> kf_cancelled kf' w2 \<and> kf_cancel_reason kf' = reason"
proof -
  note sub = submit_sharing_InrD [OF assms(1) [unfolded run_async_sharing_context_def]]
  have "\<not> future_done (kf_future kf) w1" using sub by (simp add: future_done_def kf_init_def)
  with assms(4) sub have w2: "w2 = upd_loop l (\<lambda>x. x\<lparr>l_ready := l_ready x @ [CbSetEvent (rt_nevents w)]\<rparr>) w1"
    and kf': "r = Inr True" "kf_cancelled kf' w2" "kf_cancel_reason kf' = reason"
    by (auto simp: kf_cancel_eq kf_init_def kf_cancelled_def)
  have "ahead_by_set l (rt_nevents w) w1 w2" by (simp add: ahead_by_set_def w2)
  then have "ahead_by_set l (rt_nevents w) ((run_ready l ^^ n) w1) ((run_ready l ^^ n) w2)"
    by (rule ahead_by_set_run)
  with assms(2,3) kf' show ?thesis
    by (simp add: ahead_by_set_def check_cancelled_def)
qed

text \<open>
  Closing an async generator from another thread takes at most the timeout, also when
  its cleanup hangs, and raises only what the cleanup itself raised; on a closed loop or for
  an object without \<open>aclose\<close> it does nothing, and on the loop's own thread it does not wait.
\<close>

lemma aclose_bounded:
  assumes "aclose_async_gen_threadsafe has l timeout close c w = (r, w')"
  shows "rt_now w' \<le> rt_now w + max 0 (case timeout of None \<Rightarrow> ACLOSE_TIMEOUT | Some t \<Rightarrow> t) \<and>
    (\<not> has \<or> l_closed (rt_loops w l) \<longrightarrow> r = Inr NotClosed \<and> w' = w) \<and>
    (has \<and> \<not> l_closed (rt_loops w l) \<and> c_running c = Some l \<longrightarrow> r = Inr Scheduled \<and> w' = w) \<and>
    (case r of
       Inr _ \<Rightarrow> True
     | Inl x \<Rightarrow> \<exists>d e. close = Some (d, Inl e) \<and> x = unwind (entry ''koil.utils'' ''aclose_async_gen_threadsafe'' False 164) e \<and>
         \<not> catches [RuntimeError, CancelledError, FuturesCancelledError, TimeoutError] e)"
  using assms
  by (auto simp: aclose_async_gen_threadsafe_def Let_def catches_def koil_simps
      split: if_splits option.splits sum.splits prod.splits)

subsection \<open>Witnesses\<close>

definition init_world :: world where
  "init_world = rt.extend init_rt (world.fields (\<lambda>_. new_race sample_job) 0 False)"

lemma init_world_simps [simp]:
  "rt_now init_world = 0" "w_sigint init_world = False" "w_nraces init_world = 0"
  "w_races init_world = (\<lambda>_. new_race sample_job)" "rt_nevents init_world = 0"
  "rt_loops init_world = rt_loops init_rt" "rt_events init_world = rt_events init_rt"
  "rt_koils init_world = rt_koils init_rt" "rt_environ init_world = (\<lambda>_. None)"
  "rt_rewrite_tracebacks init_world = True"
  by (simp_all add: init_world_def rt.defs world.defs init_rt_def)

definition ended_world :: "task_end \<Rightarrow> world" where
  "ended_world t = init_world\<lparr>w_races := (\<lambda>_. (new_race sample_job)\<lparr>r_phase := Ended t\<rparr>)\<rparr>"

lemma ended_world_simps [simp]:
  "w_sigint (ended_world t) = False" "r_phase (w_races (ended_world t) f) = Ended t"
  "r_ctx (w_races (ended_world t) f) = [(UserVar ''x'', PyInt 1)]"
  "rt_environ (ended_world t) = (\<lambda>_. None)" "rt_rewrite_tracebacks (ended_world t) = True"
  by (simp_all add: ended_world_def new_race_def)

theorem kf_result_bounded_witness:
  "\<exists>r kf' c' w' evs'. kf_result (Some 3) None (kf_init 0 0) init_caller init_world [] =
      Some (r, kf', c', w', evs') \<and> rt_now w' \<le> 13"
proof -
  have "cancel_grace (ambient_koil init_caller) init_world = 10"
    by (simp add: cancel_grace_def ambient_koil_def init_caller_def ctx_get_def CANCEL_GRACE_FALLBACK_def)
  then show ?thesis
    using kf_result_bounded [of 3 None "kf_init 0 0" init_caller init_world "[]"] by auto
qed

lemma kf_result_value_witness:
  "\<exists>c'. kf_result (Some 0) None (kf_init 0 0) init_caller (ended_world (TaskReturned (PyInt 7))) [WSigint] =
      Some (Inr (PyInt 7), kf_init 0 0, c', ended_world (TaskReturned (PyInt 7)), [WSigint]) \<and>
     ctx_get (c_vars c') (UserVar ''x'') = PyInt 1 \<and> ctx_get (c_vars c') global_koil = PyNone"
proof -
  have "ctx_wf [(UserVar ''x'', PyInt 1)]" by (simp add: ctx_wf_def)
  then obtain c' where c': "kf_result (Some 0) None (kf_init 0 0) init_caller (ended_world (TaskReturned (PyInt 7))) [WSigint] =
      Some (Inr (PyInt 7), kf_init 0 0, c', ended_world (TaskReturned (PyInt 7)), [WSigint])"
    "\<forall>x. ctx_get (c_vars c') x = (if x \<in> fst ` set [(UserVar ''x'', PyInt 1)]
       then ctx_get [(UserVar ''x'', PyInt 1)] x else ctx_get (c_vars init_caller) x)"
    using kf_result_value [of "ended_world (TaskReturned (PyInt 7))" "kf_init 0 0" "PyInt 7" "Some 0"
        "[(UserVar ''x'', PyInt 1)]" None init_caller "[WSigint]"] by (auto simp: nonneg_def)
  from c'(2) have "ctx_get (c_vars c') (UserVar ''x'') = PyInt 1" "ctx_get (c_vars c') global_koil = PyNone"
    by (simp_all add: ctx_get_def init_caller_def)
  with c'(1) show ?thesis by blast
qed

lemma kf_result_traceback_witness:
  "\<exists>x. kf_result None None (kf_init 0 0) init_caller
      (ended_world (TaskRaised (unwind (passed_entry 525)
        (unwind (entry ''koil.utils'' ''context_future'' True 468)
          (new_exn (entry ''app'' ''fetch'' False 12) TimeoutError ''slow''))))) [] =
      Some (Inl x, kf_init 0 0, init_caller, ended_world (TaskRaised (unwind (passed_entry 525)
        (unwind (entry ''koil.utils'' ''context_future'' True 468)
          (new_exn (entry ''app'' ''fetch'' False 12) TimeoutError ''slow'')))), []) \<and>
     ecls x = TimeoutError \<and> emsg x = ''slow'' \<and> etb x = [result_entry 341, entry ''app'' ''fetch'' False 12]"
  using kf_result_traceback [of "ended_world (TaskRaised (unwind (passed_entry 525)
        (unwind (entry ''koil.utils'' ''context_future'' True 468)
          (new_exn (entry ''app'' ''fetch'' False 12) TimeoutError ''slow''))))" "kf_init 0 0" 525 468
      "new_exn (entry ''app'' ''fetch'' False 12) TimeoutError ''slow''" None init_caller None "[]"]
  by (simp add: should_rewrite_def ambient_koil_def init_caller_def ctx_get_def catches_def koil_simps
      nonneg_def user_entries_def visible_def is_hidden_def entry_def hidden_modules_def py_strip_def
      py_lower_def)

theorem kf_result_interrupt_witness:
  "\<exists>x kf' w' evs'. kf_result None (Some (1 / 20)) (kf_init 0 0) init_caller init_world [WSigint] =
      Some (Inl x, kf', init_caller, w', evs') \<and> ecls x = KeyboardInterrupt \<and> rt_now w' \<le> 1 / 20"
  using kf_result_interrupt [of "kf_init 0 0" init_world "1 / 20" None init_caller "[]"]
  by (auto simp: future_done_def new_race_def)

theorem future_cancel_is_private_witness:
  "\<exists>kf w1 r kf' w2. run_async_sharing_context 0 None None None
      \<lparr>c_vars = [(current_cancel_event, PyEvent 0)], c_running = None\<rparr> (init_world\<lparr>rt_nevents := 1\<rparr>) = (Inr kf, w1) \<and>
     kf_cancel None kf w1 = (r, kf', w2) \<and> kf_cancelled kf' w2 \<and>
     check_cancelled \<lparr>c_vars = [(current_cancel_event, PyEvent 0)], c_running = None\<rparr>
       ((run_ready 0 ^^ 2) w2) =
     check_cancelled \<lparr>c_vars = [(current_cancel_event, PyEvent 0)], c_running = None\<rparr>
       ((run_ready 0 ^^ 2) w1)"
proof -
  let ?c = "\<lparr>c_vars = [(current_cancel_event, PyEvent 0)], c_running = None\<rparr>"
  have a: "ambient_event ?c = Some 0" by (simp add: ambient_event_def ctx_get_def)
  have "\<exists>kf w1. run_async_sharing_context 0 None None None ?c (init_world\<lparr>rt_nevents := 1\<rparr>) = (Inr kf, w1)"
    by (simp add: run_async_sharing_context_def submit_sharing_def event_init_def a event_is_set_def
        call_soon_threadsafe_def init_rt_def)
  then obtain kf w1 where s: "run_async_sharing_context 0 None None None ?c (init_world\<lparr>rt_nevents := 1\<rparr>) = (Inr kf, w1)"
    by blast
  obtain r kf' w2 where k: "kf_cancel None kf w1 = (r, kf', w2)" using prod_cases3 by blast
  from future_cancel_is_private [OF s a _ k, of 2] s k show ?thesis by auto
qed

lemma aclose_bounded_witness:
  "rt_now (snd (aclose_async_gen_threadsafe True 0 None None init_caller init_world)) \<le> 5"
  using aclose_bounded [of True 0 None None init_caller init_world
      "fst (aclose_async_gen_threadsafe True 0 None None init_caller init_world)"
      "snd (aclose_async_gen_threadsafe True 0 None None init_caller init_world)"]
  by (simp add: ACLOSE_TIMEOUT_def)

end
