(* ===== verification/Koil_Bridge.thy ===== *)
theory Koil_Bridge
  imports Koil_Future
begin

section \<open>From synchronous code to the loop (koil/bridge.py)\<close>

text \<open>
  The bridges that synchronous code uses: finding the loop, \<open>sleep\<close>, \<open>unkoil\<close> and
  \<open>unkoil_task\<close> with their variants with a timeout, and the synchronous generator
  \<open>unkoil_gen\<close>, whose resumptions are operations on its suspended state. What the coroutine
  does on the loop is in the list of events, as the steps of its task.
\<close>

subsection \<open>Guards\<close>

text \<open>
  What is handed to a bridge: a coroutine object, an async generator object, or a callable of
  some kind with its \<open>__qualname__\<close>, \<open>__name__\<close> and \<open>repr\<close>.
\<close>

datatype target =
    CoroutineObject
  | AsyncGenObject
  | Callable fkind "string option" "string option" string

definition bridge_entry :: "string \<Rightarrow> int \<Rightarrow> tb_entry" where
  "bridge_entry fn line = entry ''koil.bridge'' fn False line"

definition reject_awaitable_object :: "target \<Rightarrow> string \<Rightarrow> exn option" where
  "reject_awaitable_object v func_name =
     (case v of
        CoroutineObject \<Rightarrow>
          Some (new_exn (bridge_entry ''_reject_awaitable_object'' 73) TypeError
            (func_name @ ''() expects an async function, not a coroutine object.''))
      | AsyncGenObject \<Rightarrow>
          Some (new_exn (bridge_entry ''_reject_awaitable_object'' 79) TypeError
            (func_name @ ''() expects an async generator function, not an async generator object.''))
      | Callable _ _ _ _ \<Rightarrow> None)"

definition await_it_instead :: "target option \<Rightarrow> string" where
  "await_it_instead fn =
     (case fn of
        Some (Callable k qualname name rep) \<Rightarrow>
          let n = (case qualname of
                     Some (q # qs) \<Rightarrow> q # qs
                   | _ \<Rightarrow> (case name of Some x \<Rightarrow> x | None \<Rightarrow> rep));
              n' = py_rpartition_tail ''<locals>.'' n
          in if k = AsyncGenFunction
             then ''Iterate the async generator directly instead: `async for ... in '' @ n' @ ''(...)`.''
             else ''Await the async function directly instead: `await '' @ n' @ ''(...)`.''
      | _ \<Rightarrow> ''Use the async variant directly instead, usually the `a`-prefixed method.'')"

definition get_koiled_loop_or_raise :: "target option \<Rightarrow> caller \<Rightarrow> 'z rt_scheme \<Rightarrow> exn + nat" where
  "get_koiled_loop_or_raise fn c s =
     (let err = (\<lambda>n m. Inl (new_exn (bridge_entry ''get_koiled_loop_or_raise'' n) KoilError m)) in
      case ambient_loop c of
        None \<Rightarrow>
          if c_running c \<noteq> None
          then err 144 (''No koil context found: a sync koil wrapper (unkoil) was called from inside a running event loop, i.e. from async code, where it cannot block. '' @ await_it_instead fn)
          else err 149 ''No koil context found: unkoil needs a koil loop to run on.''
      | Some kloop \<Rightarrow>
          if c_running c = Some kloop
          then err 158 (''Calling unkoil() from within the koil loop itself, which would deadlock. '' @ await_it_instead fn)
          else if c_running c \<noteq> None \<and>
                  (case ambient_koil c of None \<Rightarrow> True | Some k \<Rightarrow> \<not> k_sync_in_async (rt_koils s k))
          then err 163 (''Calling unkoil() from within a running event loop while koil does not allow sync-in-async (Koil(sync_in_async=True)). '' @ await_it_instead fn)
          else if l_closed (rt_loops s kloop)
          then Inl (new_exn (bridge_entry ''get_koiled_loop_or_raise'' 170) RuntimeError ''Loop is not running'')
          else Inr kloop)"

subsection \<open>sleep\<close>

text \<open>
  The loop that waits for the timer. \<open>Event.wait\<close> returns when the timer has fired or the
  poll time is up; the cancel event is looked at after every wait, the last one included.
\<close>

partial_function (option) sleep_loop ::
    "nat \<Rightarrow> time \<Rightarrow> caller \<Rightarrow> wevent list \<Rightarrow> world \<Rightarrow> ((exn + unit) \<times> world \<times> wevent list) option" where
  "sleep_loop t event_wait_time c evs w =
     (if rt_fired w t then Some (Inr (), w, evs)
      else
        case wait_until (\<lambda>w. rt_fired w t) (rt_now w + event_wait_time) evs w of
          (w', evs') \<Rightarrow>
            if (case ambient_event c of None \<Rightarrow> False | Some e \<Rightarrow> event_is_set e w')
            then Some (Inl (new_exn (bridge_entry ''sleep'' 212) ThreadCancelledError ''Sleep was cancelled''),
                       w', evs')
            else sleep_loop t event_wait_time c evs' w')"

text \<open>
  \<open>time.sleep\<close> refuses a negative duration. Any other error than a \<open>KoilError\<close> of the guard
  leaves \<open>sleep\<close>.
\<close>

definition sleep ::
    "time \<Rightarrow> time \<Rightarrow> caller \<Rightarrow> world \<Rightarrow> wevent list \<Rightarrow> ((exn + unit) \<times> world \<times> wevent list) option" where
  "sleep seconds event_wait_time c w evs =
     (case get_koiled_loop_or_raise None c w of
        Inl e \<Rightarrow>
          if catches [KoilError] e then
            (if seconds < 0
             then Some (Inl (new_exn (bridge_entry ''sleep'' 195) ValueError
                    ''sleep length must be non-negative''), w, evs)
             else case wait_until (\<lambda>_. False) (rt_now w + seconds) evs w of
               (w', evs') \<Rightarrow> Some (Inr (), w', evs'))
          else Some (Inl (unwind (bridge_entry ''sleep'' 193) e), w, evs)
      | Inr kloop \<Rightarrow>
          let t = rt_ntimers w in
          (case call_soon_threadsafe (bridge_entry ''sleep'' 206) kloop (CbCallLater seconds t)
                  (w\<lparr>rt_ntimers := Suc t\<rparr>) of
             Inl e \<Rightarrow> Some (Inl e, w, evs)
           | Inr w1 \<Rightarrow> sleep_loop t event_wait_time c evs w1))"

subsection \<open>unkoil\<close>

text \<open>
  \<open>try: return future.result() except BaseException as e: ...\<close>, as every bridge has it: its
  own frame is the boundary that the pruning keeps.
\<close>

definition bridge_result ::
    "string \<Rightarrow> int \<Rightarrow> kfut \<Rightarrow> caller \<Rightarrow> world \<Rightarrow> wevent list \<Rightarrow>
     ((exn + pyval) \<times> kfut \<times> caller \<times> world \<times> wevent list) option" where
  "bridge_result fn line kf c w evs =
     (case kf_result None None kf c w evs of
        None \<Rightarrow> None
      | Some (Inr v, rest) \<Rightarrow> Some (Inr v, rest)
      | Some (Inl e, kf', c', w', evs') \<Rightarrow>
          let e' = unwind (bridge_entry fn line) e
          in Some (Inl (if should_rewrite c' w' then prune_exn True e' else e'), kf', c', w', evs'))"

text \<open>The part that \<open>unkoil\<close>, \<open>unkoil_task\<close> and their variants share: guards and submission.\<close>

definition bridge_submit ::
    "string \<Rightarrow> int \<times> int \<times> int \<Rightarrow> target \<Rightarrow> time option \<Rightarrow> caller \<Rightarrow> world \<Rightarrow> (exn + kfut) \<times> world" where
  "bridge_submit fn lines coro timeout c w =
     (case lines of (reject_line, loop_line, submit_line) \<Rightarrow>
      case reject_awaitable_object coro fn of
        Some e \<Rightarrow> (Inl (unwind (bridge_entry fn reject_line) e), w)
      | None \<Rightarrow>
          (case get_koiled_loop_or_raise (Some coro) c w of
             Inl e \<Rightarrow> (Inl (unwind (bridge_entry fn loop_line) e), w)
           | Inr kloop \<Rightarrow>
               (case run_async_sharing_context kloop None timeout None c w of
                  (Inl e, w') \<Rightarrow> (Inl (unwind (bridge_entry fn submit_line) e), w')
                | (Inr kf, w') \<Rightarrow> (Inr kf, w'))))"

definition bridge_call ::
    "string \<Rightarrow> int \<times> int \<times> int \<Rightarrow> int \<Rightarrow> target \<Rightarrow> time option \<Rightarrow> caller \<Rightarrow> world \<Rightarrow> wevent list \<Rightarrow>
     ((exn + pyval) \<times> caller \<times> world \<times> wevent list) option" where
  "bridge_call fn lines result_line coro timeout c w evs =
     (case bridge_submit fn lines coro timeout c w of
        (Inl e, w1) \<Rightarrow> Some (Inl e, c, w1, evs)
      | (Inr kf, w1) \<Rightarrow>
          (case bridge_result fn result_line kf c w1 evs of
             None \<Rightarrow> None
           | Some (r, kf', c', w', evs') \<Rightarrow> Some (r, c', w', evs')))"

definition unkoil ::
    "target \<Rightarrow> caller \<Rightarrow> world \<Rightarrow> wevent list \<Rightarrow> ((exn + pyval) \<times> caller \<times> world \<times> wevent list) option" where
  "unkoil coro c w evs = bridge_call ''unkoil'' (392, 393, 395) 400 coro None c w evs"

definition unkoil_with_timeout ::
    "target \<Rightarrow> time \<Rightarrow> caller \<Rightarrow> world \<Rightarrow> wevent list \<Rightarrow>
     ((exn + pyval) \<times> caller \<times> world \<times> wevent list) option" where
  "unkoil_with_timeout coro timeout c w evs =
     bridge_call ''unkoil_with_timeout'' (442, 443, 445) 450 coro (Some timeout) c w evs"

definition unkoil_task :: "target \<Rightarrow> caller \<Rightarrow> world \<Rightarrow> (exn + kfut) \<times> world" where
  "unkoil_task coro c w = bridge_submit ''unkoil_task'' (485, 486, 488) coro None c w"

definition unkoil_task_with_timeout :: "target \<Rightarrow> time \<Rightarrow> caller \<Rightarrow> world \<Rightarrow> (exn + kfut) \<times> world" where
  "unkoil_task_with_timeout coro timeout c w =
     bridge_submit ''unkoil_task_with_timeout'' (531, 532, 534) coro (Some timeout) c w"

subsection \<open>unkoil\_gen\<close>

definition KOIL_CANCEL_TIMEOUT :: time where
  "KOIL_CANCEL_TIMEOUT = 10"

text \<open>
  The synchronous generator object between two resumptions. The body has not run yet, is
  suspended at a \<open>yield\<close>, or is over.
\<close>

datatype gen_state = GenFresh | GenSuspended | GenFinished

record ugen =
  ug_target :: target
  ug_timeout :: "time option"
  ug_state :: gen_state
  ug_loop :: nat
  ug_future :: "kfut option"

definition ug_name :: "ugen \<Rightarrow> string" where
  "ug_name g = (if ug_timeout g = None then ''unkoil_gen'' else ''unkoil_gen_with_timeout'')"

definition unkoil_gen :: "target \<Rightarrow> ugen" where
  "unkoil_gen iterator =
     \<lparr>ug_target = iterator, ug_timeout = None, ug_state = GenFresh, ug_loop = 0, ug_future = None\<rparr>"

definition unkoil_gen_with_timeout :: "target \<Rightarrow> time \<Rightarrow> ugen" where
  "unkoil_gen_with_timeout iterator timeout =
     \<lparr>ug_target = iterator, ug_timeout = Some timeout, ug_state = GenFresh, ug_loop = 0, ug_future = None\<rparr>"

text \<open>
  The \<open>finally\<close> block, on the way out with \<open>r\<close>: a step still in flight is cancelled and given
  time, then the async generator is closed on the loop. \<open>close\<close> is how that goes; what it
  raises replaces \<open>r\<close>.
\<close>

definition ugen_finally ::
    "(time \<times> (exn + pyval)) option \<Rightarrow> exn + pyval \<Rightarrow> ugen \<Rightarrow> caller \<Rightarrow> world \<Rightarrow> wevent list \<Rightarrow>
     (exn + pyval) \<times> ugen \<times> caller \<times> world \<times> wevent list" where
  "ugen_finally close r g c w evs =
     (let (g1, w1, evs1) =
        (case ug_future g of
           None \<Rightarrow> (g, w, evs)
         | Some kf \<Rightarrow>
             if future_done (kf_future kf) w then (g, w, evs)
             else
               (case kf_cancel (Some ''generator closed'') kf w of (_, kf', w') \<Rightarrow>
                case cf_wait (kf_future kf') (rt_now w' + KOIL_CANCEL_TIMEOUT) evs w' of (w'', evs'') \<Rightarrow>
                  (g\<lparr>ug_future := Some kf'\<rparr>, w'', evs'')))
      in case aclose_async_gen_threadsafe True (ug_loop g1) None close c w1 of
        (Inl x, w2) \<Rightarrow>
          (Inl (unwind (bridge_entry (ug_name g) (if ug_timeout g = None then 286 else 361)) x),
           g1\<lparr>ug_state := GenFinished\<rparr>, c, w2, evs1)
      | (Inr _, w2) \<Rightarrow> (r, g1\<lparr>ug_state := GenFinished\<rparr>, c, w2, evs1))"

text \<open>
  One step: \<open>__anext__\<close> is submitted, with the sent value as its argument if there is one,
  which \<open>__anext__\<close> does not accept. Only after the first value does \<open>StopAsyncIteration\<close> end the
  generator; the resumption then raises \<open>StopIteration\<close>.
\<close>

definition anext_argument_error :: exn where
  "anext_argument_error = make_exn TypeError ''__anext__() takes no arguments''"

definition ugen_step ::
    "bool \<Rightarrow> pyval \<Rightarrow> (time \<times> (exn + pyval)) option \<Rightarrow> ugen \<Rightarrow> caller \<Rightarrow> world \<Rightarrow> wevent list \<Rightarrow>
     ((exn + pyval) \<times> ugen \<times> caller \<times> world \<times> wevent list) option" where
  "ugen_step first send_val close g c w evs =
     (let fn = ug_name g;
          plain = (ug_timeout g = None);
          submit_line = (if first then (if plain then 248 else 327)
                         else if send_val = PyNone then (if plain then 261 else 337)
                         else (if plain then 263 else 341));
          result_line = (if first then (if plain then 253 else 329) else (if plain then 268 else 346));
          call = (if send_val = PyNone then None else Some anext_argument_error)
      in case run_async_sharing_context (ug_loop g) None (ug_timeout g) call c w of
        (Inl e, w1) \<Rightarrow> Some (ugen_finally close (Inl (unwind (bridge_entry fn submit_line) e)) g c w1 evs)
      | (Inr kf, w1) \<Rightarrow>
          (case kf_result None None kf c w1 evs of
             None \<Rightarrow> None
           | Some (Inr v, kf', c', w', evs') \<Rightarrow>
               Some (Inr v, g\<lparr>ug_state := GenSuspended, ug_future := Some kf'\<rparr>, c', w', evs')
           | Some (Inl e, kf', c', w', evs') \<Rightarrow>
               let e' = unwind (bridge_entry fn result_line) e;
                   g' = g\<lparr>ug_future := Some kf'\<rparr>
               in if \<not> first \<and> catches [StopAsyncIteration] e'
                  then Some (ugen_finally close (Inl (make_exn StopIteration [])) g' c' w' evs')
                  else Some (ugen_finally close
                         (Inl (if should_rewrite c' w' then prune_exn True e' else e')) g' c' w' evs')))"

text \<open>\<open>send(value)\<close>; \<open>next()\<close> is \<open>send(None)\<close>. A generator that has not started takes \<open>None\<close> only.\<close>

definition ugen_send ::
    "pyval \<Rightarrow> (time \<times> (exn + pyval)) option \<Rightarrow> ugen \<Rightarrow> caller \<Rightarrow> world \<Rightarrow> wevent list \<Rightarrow>
     ((exn + pyval) \<times> ugen \<times> caller \<times> world \<times> wevent list) option" where
  "ugen_send v close g c w evs =
     (case ug_state g of
        GenFinished \<Rightarrow> Some (Inl (make_exn StopIteration []), g, c, w, evs)
      | GenSuspended \<Rightarrow> ugen_step False v close g c w evs
      | GenFresh \<Rightarrow>
          if v \<noteq> PyNone
          then Some (Inl (make_exn TypeError ''can't send non-None value to a just-started generator''), g, c, w, evs)
          else
            let fn = ug_name g; n = (if ug_timeout g = None then 0 else 79);
                fail = (\<lambda>line e. Some (Inl (unwind (bridge_entry fn (line + n)) e),
                                 g\<lparr>ug_state := GenFinished\<rparr>, c, w, evs))
            in case reject_awaitable_object (ug_target g) fn of
              Some e \<Rightarrow> fail 241 e
            | None \<Rightarrow>
                (case get_koiled_loop_or_raise (Some (ug_target g)) c w of
                   Inl e \<Rightarrow> fail 242 e
                 | Inr kloop \<Rightarrow> ugen_step True PyNone close (g\<lparr>ug_loop := kloop\<rparr>) c w evs))"



subsection \<open>An undisturbed call\<close>

text \<open>
  The course of a call on an idle loop: the loop starts the task, the work ends with \<open>res\<close>
  after setting the variables \<open>sets\<close>, the race is decided and the cancel waiter tidied up.
\<close>

definition undisturbed :: "nat \<Rightarrow> nat \<Rightarrow> exn + pyval \<Rightarrow> ctx \<Rightarrow> wevent list" where
  "undisturbed l f res sets =
     [WTurn l, WRace f (EvWork res sets), WRace f (EvWake [OwnCancel]), WRace f EvTidy]"

lemma race_undisturbed:
  assumes "j_ambient j = None" and "j_timeout j = None"
  shows "\<exists>r1 r2 r3 r4. race_next s1 EvStart (new_race j) = Some r1 \<and>
    race_next s2 (EvWork res sets) r1 = Some r2 \<and> race_next s3 (EvWake [OwnCancel]) r2 = Some r3 \<and>
    race_next s4 EvTidy r3 = Some r4 \<and> r_job r1 = j \<and> r_job r2 = j \<and> r_job r3 = j \<and>
    r_phase r1 = Racing \<and> r_phase r2 = Racing \<and> r_phase r3 = Tidying [OwnCancel] \<and>
    r4 = conclude s4 r3 \<and> r_finished r3 = [Work] \<and>
    r_done r3 Work = Some (work_end j (work_line j) res) \<and>
    r_ctx r3 = set_items sets (set_items (j_ctx j) (j_ctx j)) \<and> r_ack r3"
  using assms
  by (simp add: new_race_def work_running_def unfinished_def race_tasks_def tidy_def awaited_def)

lemma conclude_simps [simp]:
  "r_phase (conclude s r) = Ended (fst (verdict (should_rewrite (task_caller (r_job r)) s) r))"
  "r_ctx (conclude s r) = r_ctx r"
  by (simp_all add: conclude_def split: prod.splits)

lemma should_rewrite_upd [simp]:
  "should_rewrite c (w\<lparr>rt_now := n\<rparr>) = should_rewrite c w"
  "should_rewrite c (upd_race f r w) = should_rewrite c w"
  "should_rewrite c (upd_loop l g w) = should_rewrite c w"
  by (simp_all add: should_rewrite_def upd_race_def upd_loop_def split: option.splits)

lemma should_rewrite_vars: "c_vars c' = c_vars c \<Longrightarrow> should_rewrite c' s = should_rewrite c s"
  by (simp add: should_rewrite_def ambient_koil_def)

lemma wstep_race:
  "race_next w ev (w_races w f) = Some r \<Longrightarrow> ev \<noteq> EvStart \<Longrightarrow>
   \<not> l_closed (rt_loops w (j_loop (r_job (w_races w f)))) \<Longrightarrow> wstep (WRace f ev) w = upd_race f r w"
  by (simp add: race_act_def)

lemma cf_wait_undisturbed:
  assumes w: "w_races w f = new_race j" "j_loop j = l" "\<not> l_closed (rt_loops w l)"
    "l_ready (rt_loops w l) = [CbSubmit f]" and j: "j_ambient j = None" "j_timeout j = None"
    and dl: "rt_now w < dl"
  shows "\<exists>w' r3. cf_wait f dl (undisturbed l f res sets @ evs) w = (w', evs) \<and>
    r_phase (w_races w' f) = Ended (fst (verdict (should_rewrite (task_caller j) w) r3)) \<and>
    r_job r3 = j \<and> r_finished r3 = [Work] \<and> r_done r3 Work = Some (work_end j (work_line j) res) \<and>
    r_ctx (w_races w' f) = set_items sets (set_items (j_ctx j) (j_ctx j)) \<and>
    r_ctx r3 = r_ctx (w_races w' f) \<and>
    settings w' = settings w \<and> rt_now w' = rt_now w \<and> w_sigint w' = w_sigint w \<and> \<not> l_closed (rt_loops w' l)"
proof -
  let ?w0 = "upd_loop l (\<lambda>x. x\<lparr>l_ready := []\<rparr>) w"
  have ready: "run_ready l w = ?w0" using w by (simp add: run_ready_def)
  obtain r1 where r1: "race_next ?w0 EvStart (new_race j) = Some r1" "r_phase r1 = Racing" "r_job r1 = j"
    using race_undisturbed [OF j, where ?s1.0 = ?w0] by blast
  define w1 where "w1 = upd_race f r1 ?w0"
  obtain r2 where r2: "race_next w1 (EvWork res sets) r1 = Some r2" "r_phase r2 = Racing" "r_job r2 = j"
    using race_undisturbed [OF j, where ?s1.0 = ?w0 and ?s2.0 = w1 and res = res and sets = sets] r1 by auto
  define w2 where "w2 = upd_race f r2 w1"
  obtain r3 where r3: "race_next w2 (EvWake [OwnCancel]) r2 = Some r3" "r_phase r3 = Tidying [OwnCancel]"
    "r_job r3 = j"
    using race_undisturbed [OF j, where ?s1.0 = ?w0 and ?s2.0 = w1 and ?s3.0 = w2 and res = res and sets = sets]
      r1 r2 by auto
  define w3 where "w3 = upd_race f r3 w2"
  define w4 where "w4 = upd_race f (conclude w3 r3) w3"
  have r4: "race_next w3 EvTidy r3 = Some (conclude w3 r3)" and facts: "r_finished r3 = [Work]"
    "r_done r3 Work = Some (work_end j (work_line j) res)"
    "r_ctx r3 = set_items sets (set_items (j_ctx j) (j_ctx j))"
    using race_undisturbed [OF j, where ?s1.0 = ?w0 and ?s2.0 = w1 and ?s3.0 = w2 and ?s4.0 = w3
        and res = res and sets = sets] r1 r2 r3 by auto
  have now: "rt_now w1 = rt_now w" "rt_now w2 = rt_now w" "rt_now w3 = rt_now w" "rt_now w4 = rt_now w"
    and races: "w_races w1 f = r1" "w_races w2 f = r2" "w_races w3 f = r3" "w_races w4 f = conclude w3 r3"
    and loops: "\<not> l_closed (rt_loops w1 l)" "\<not> l_closed (rt_loops w2 l)" "\<not> l_closed (rt_loops w3 l)"
      "\<not> l_closed (rt_loops w4 l)"
    and rest: "w_sigint w4 = w_sigint w" "settings w4 = settings w"
      "should_rewrite c w3 = should_rewrite c w" for c
    using w(3) by (simp_all add: w1_def w2_def w3_def w4_def upd_race_def upd_loop_def settings_def
        should_rewrite_def split: option.splits)
  have steps: "wstep (WTurn l) w = w1"
    using w r1 by (simp add: turn_def ready race_act_def w1_def del: race_next.simps)
  have more: "wstep (WRace f (EvWork res sets)) w1 = w2" "wstep (WRace f (EvWake [OwnCancel])) w2 = w3"
    "wstep (WRace f EvTidy) w3 = w4"
    using w(2) r1 r2 r3 r4 races loops unfolding w2_def w3_def w4_def
    by (intro wstep_race; simp del: race_next.simps)+
  have nd: "\<not> future_done f w" "\<not> future_done f w1" "\<not> future_done f w2" "\<not> future_done f w3"
    and fin: "future_done f w4"
    using w(1) r1 r2 r3 races by (simp_all add: future_done_def new_race_def)
  have "cf_wait f dl (undisturbed l f res sets @ evs) w = (w4, evs)"
    using nd fin now dl by (cases evs) (simp_all add: cf_wait_def undisturbed_def steps more del: wstep.simps)
  then show ?thesis
    using facts races now rest r3 loops by (intro exI [of _ w4] exI [of _ r3]) simp
qed

lemma kf_result_undisturbed:
  assumes "w_races w f = new_race j" "j_loop j = l" "\<not> l_closed (rt_loops w l)"
    "l_ready (rt_loops w l) = [CbSubmit f]" "j_ambient j = None" "j_timeout j = None"
    and "\<not> w_sigint w" and "kf_future kf = f"
  shows "\<exists>w' r3. kf_result None None kf c w (undisturbed l f res sets @ evs) = kf_result None None kf c w' evs \<and>
    r_phase (w_races w' f) = Ended (fst (verdict (should_rewrite (task_caller j) w) r3)) \<and>
    r_job r3 = j \<and> r_finished r3 = [Work] \<and> r_done r3 Work = Some (work_end j (work_line j) res) \<and>
    r_ctx (w_races w' f) = set_items sets (set_items (j_ctx j) (j_ctx j)) \<and>
    settings w' = settings w \<and> rt_now w' = rt_now w \<and> \<not> w_sigint w' \<and> \<not> l_closed (rt_loops w' l)"
proof -
  have pos: "rt_now w < rt_now w + RESULT_POLL_INTERVAL" by (simp add: RESULT_POLL_INTERVAL_def)
  obtain w' r3 where w': "cf_wait f (rt_now w + RESULT_POLL_INTERVAL) (undisturbed l f res sets @ evs) w = (w', evs)"
    "r_phase (w_races w' f) = Ended (fst (verdict (should_rewrite (task_caller j) w) r3))"
    "r_job r3 = j" "r_finished r3 = [Work]" "r_done r3 Work = Some (work_end j (work_line j) res)"
    "r_ctx (w_races w' f) = set_items sets (set_items (j_ctx j) (j_ctx j))"
    "settings w' = settings w" "rt_now w' = rt_now w" "w_sigint w' = w_sigint w" "\<not> l_closed (rt_loops w' l)"
    using cf_wait_undisturbed [OF assms(1-6) pos] by blast
  have "\<not> future_done f w" using assms(1) by (simp add: future_done_def new_race_def)
  then have "result_loop f RESULT_POLL_INTERVAL None (undisturbed l f res sets @ evs) w =
      result_loop f RESULT_POLL_INTERVAL None evs w'"
    using w'(1) assms(7) by (subst result_loop.simps) simp
  then have "kf_result None None kf c w (undisturbed l f res sets @ evs) = kf_result None None kf c w' evs"
    using assms(8) by (simp add: kf_result_def)
  with w' assms(7) show ?thesis by blast
qed

subsection \<open>Facts on the guards and on submission\<close>

lemma get_koiled_loop_Inr:
  "get_koiled_loop_or_raise fn c s = Inr l \<longleftrightarrow>
     ambient_loop c = Some l \<and> c_running c \<noteq> Some l \<and> \<not> l_closed (rt_loops s l) \<and>
     (c_running c = None \<or> (\<exists>k. ambient_koil c = Some k \<and> k_sync_in_async (rt_koils s k)))"
  by (auto simp: get_koiled_loop_or_raise_def Let_def split: option.splits)

lemma bridge_submit_InrD:
  assumes "bridge_submit fn ls coro timeout c w = (Inr kf, w')"
  shows "\<exists>l. get_koiled_loop_or_raise (Some coro) c w = Inr l \<and>
    run_async_sharing_context l None timeout None c w = (Inr kf, w')"
  using assms by (auto simp: bridge_submit_def split: prod.splits option.splits sum.splits)

text \<open>What makes a submission go through: no negative timeout, and no cancelled scope.\<close>

definition may_submit :: "time option \<Rightarrow> caller \<Rightarrow> world \<Rightarrow> bool" where
  "may_submit timeout c w \<longleftrightarrow>
     nonneg timeout \<and> (\<forall>e. ambient_event c = Some e \<longrightarrow> e < rt_nevents w \<and> \<not> event_is_set e w)"

lemma run_async_submits:
  assumes "may_submit timeout c w" and "\<not> l_closed (rt_loops w l)"
  shows "\<exists>w'. run_async_sharing_context l sg timeout call c w = (Inr (kf_init (w_nraces w) (rt_nevents w)), w') \<and>
    w_races w' (w_nraces w) =
      new_race \<lparr>j_loop = l, j_ctx = c_vars c, j_koil = ambient_koil c, j_own = rt_nevents w,
        j_ambient = ambient_event c, j_timeout = timeout, j_signals = sg, j_iterates = False,
        j_call_raises = call\<rparr> \<and>
    \<not> l_closed (rt_loops w' l) \<and> l_ready (rt_loops w' l) = l_ready (rt_loops w l) @ [CbSubmit (w_nraces w)] \<and>
    settings w' = settings w \<and> rt_now w' = rt_now w \<and> w_sigint w' = w_sigint w"
proof -
  have "\<not> (case timeout of None \<Rightarrow> False | Some t \<Rightarrow> t < 0)"
    using assms(1) by (auto simp: may_submit_def nonneg_def split: option.splits)
  moreover have "\<not> (case ambient_event c of None \<Rightarrow> False
      | Some e \<Rightarrow> event_is_set e (w\<lparr>rt_events := (rt_events w)
          (rt_nevents w := \<lparr>ev_loop = l, ev_flag = False\<rparr>), rt_nevents := Suc (rt_nevents w)\<rparr>))"
    using assms(1) by (auto simp: may_submit_def event_is_set_def split: option.splits)
  ultimately show ?thesis
    using assms(2)
    by (simp add: run_async_sharing_context_def submit_sharing_def event_init_def Let_def koil_simps)
      (simp add: upd_loop_def settings_def)
qed

text \<open>A plain caller of a bridge: an idle open loop, no cancelled scope, no Ctrl+C pending.\<close>

definition plain_call :: "target \<Rightarrow> nat \<Rightarrow> caller \<Rightarrow> world \<Rightarrow> bool" where
  "plain_call coro l c w \<longleftrightarrow>
     (\<exists>k q n r. coro = Callable k q n r) \<and> get_koiled_loop_or_raise (Some coro) c w = Inr l \<and>
     l_ready (rt_loops w l) = [] \<and> ambient_event c = None \<and> \<not> w_sigint w"

lemma plain_submit:
  assumes "plain_call coro l c w"
  shows "\<exists>w'. bridge_submit fn ls coro None c w = (Inr (kf_init (w_nraces w) (rt_nevents w)), w') \<and>
    w_races w' (w_nraces w) =
      new_race \<lparr>j_loop = l, j_ctx = c_vars c, j_koil = ambient_koil c, j_own = rt_nevents w,
        j_ambient = None, j_timeout = None, j_signals = None, j_iterates = False, j_call_raises = None\<rparr> \<and>
    \<not> l_closed (rt_loops w' l) \<and> l_ready (rt_loops w' l) = [CbSubmit (w_nraces w)] \<and>
    settings w' = settings w \<and> rt_now w' = rt_now w \<and> \<not> w_sigint w'"
proof -
  have ok: "may_submit None c w" "\<not> l_closed (rt_loops w l)"
    using assms by (auto simp: plain_call_def may_submit_def nonneg_def get_koiled_loop_Inr)
  show ?thesis
    using run_async_submits [OF ok, of None None] assms
    by (auto simp: plain_call_def bridge_submit_def reject_awaitable_object_def split: prod.splits)
qed

text \<open>A plain call that runs undisturbed: what it comes to when the work returns or raises.\<close>

lemma plain_result_value:
  assumes "plain_call coro l c w"
  shows "\<exists>w'. bridge_call fn ls n coro None c w (undisturbed l (w_nraces w) (Inr v) sets @ evs) =
      Some (Inr v, c\<lparr>c_vars := set_items (set_items sets (set_items (c_vars c) (c_vars c))) (c_vars c)\<rparr>, w', evs) \<and>
    rt_now w' = rt_now w \<and> settings w' = settings w \<and> \<not> l_closed (rt_loops w' l)"
proof -
  obtain w1 where sub: "bridge_submit fn ls coro None c w = (Inr (kf_init (w_nraces w) (rt_nevents w)), w1)"
    and w1: "w_races w1 (w_nraces w) =
      new_race \<lparr>j_loop = l, j_ctx = c_vars c, j_koil = ambient_koil c, j_own = rt_nevents w,
        j_ambient = None, j_timeout = None, j_signals = None, j_iterates = False, j_call_raises = None\<rparr>"
      "\<not> l_closed (rt_loops w1 l)" "l_ready (rt_loops w1 l) = [CbSubmit (w_nraces w)]"
      "settings w1 = settings w" "rt_now w1 = rt_now w" "\<not> w_sigint w1"
    using plain_submit [OF assms] by blast
  let ?kf = "kf_init (w_nraces w) (rt_nevents w)"
  obtain w' r3 where run: "kf_result None None ?kf c w1 (undisturbed l (w_nraces w) (Inr v) sets @ evs) =
      kf_result None None ?kf c w' evs"
    and w': "r_phase (w_races w' (w_nraces w)) =
        Ended (fst (verdict (should_rewrite (task_caller (r_job r3)) w1) r3))"
      "r_job r3 = \<lparr>j_loop = l, j_ctx = c_vars c, j_koil = ambient_koil c, j_own = rt_nevents w,
        j_ambient = None, j_timeout = None, j_signals = None, j_iterates = False, j_call_raises = None\<rparr>"
      "r_finished r3 = [Work]" "r_done r3 Work = Some (work_end (r_job r3) (work_line (r_job r3)) (Inr v))"
      "r_ctx (w_races w' (w_nraces w)) = set_items sets (set_items (c_vars c) (c_vars c))"
      "settings w' = settings w1" "rt_now w' = rt_now w1" "\<not> w_sigint w'" "\<not> l_closed (rt_loops w' l)"
    using kf_result_undisturbed [OF w1(1) _ w1(2,3) _ _ w1(6), of ?kf c "Inr v" sets evs]
    by (force simp: kf_init_def)
  have "r_phase (w_races w' (kf_future ?kf)) = Ended (TaskReturned v)"
    using w' by (simp add: kf_init_def verdict_def conclude_run_def emit_then_def emit_def work_end_def)
  from kf_result_returned [OF this w'(8), of None None c evs]
  have "kf_result None None ?kf c w' evs = Some (Inr v, ?kf,
      c\<lparr>c_vars := set_items (set_items sets (set_items (c_vars c) (c_vars c))) (c_vars c)\<rparr>, w', evs)"
    using w'(5) by (simp add: kf_init_def nonneg_def)
  then show ?thesis
    using w'(6,7,9) w1(4,5) by (simp add: bridge_call_def sub bridge_result_def run)
qed

lemma plain_result_raises:
  assumes "plain_call coro l c w" and "\<not> catches [CancelledError, KeyboardInterrupt, AsyncioCancelledError] e"
    and "ecls e \<noteq> FuturesCancelledError" and "should_rewrite c w" and "user_entries (etb e)"
  shows "\<exists>x w'. bridge_call fn ls n coro None c w (undisturbed l (w_nraces w) (Inl e) sets @ evs) =
      Some (Inl x, c, w', evs) \<and>
    ecls x = ecls e \<and> emsg x = emsg e \<and> etb x = bridge_entry fn n # etb e \<and> rt_now w' = rt_now w"
proof -
  obtain w1 where sub: "bridge_submit fn ls coro None c w = (Inr (kf_init (w_nraces w) (rt_nevents w)), w1)"
    and w1: "w_races w1 (w_nraces w) =
      new_race \<lparr>j_loop = l, j_ctx = c_vars c, j_koil = ambient_koil c, j_own = rt_nevents w,
        j_ambient = None, j_timeout = None, j_signals = None, j_iterates = False, j_call_raises = None\<rparr>"
      "\<not> l_closed (rt_loops w1 l)" "l_ready (rt_loops w1 l) = [CbSubmit (w_nraces w)]"
      "settings w1 = settings w" "rt_now w1 = rt_now w" "\<not> w_sigint w1"
    using plain_submit [OF assms(1)] by blast
  let ?kf = "kf_init (w_nraces w) (rt_nevents w)"
  let ?cf = "entry ''koil.utils'' ''context_future'' True 468"
  obtain w' r3 where run: "kf_result None None ?kf c w1 (undisturbed l (w_nraces w) (Inl e) sets @ evs) =
      kf_result None None ?kf c w' evs"
    and w': "r_phase (w_races w' (w_nraces w)) =
        Ended (fst (verdict (should_rewrite (task_caller (r_job r3)) w1) r3))"
      "r_job r3 = \<lparr>j_loop = l, j_ctx = c_vars c, j_koil = ambient_koil c, j_own = rt_nevents w,
        j_ambient = None, j_timeout = None, j_signals = None, j_iterates = False, j_call_raises = None\<rparr>"
      "r_finished r3 = [Work]" "r_done r3 Work = Some (work_end (r_job r3) (work_line (r_job r3)) (Inl e))"
      "settings w' = settings w1" "rt_now w' = rt_now w1" "\<not> w_sigint w'"
    using kf_result_undisturbed [OF w1(1) _ w1(2,3) _ _ w1(6), of ?kf c "Inl e" sets evs]
    by (force simp: kf_init_def)
  define e1 where "e1 = prune_exn False (unwind ?cf e)"
  have e1: "ecls e1 = ecls e" "emsg e1 = emsg e" "etb e1 = etb e"
    using pruned_no_boundary [of "[?cf]" "etb e"] assms(5) by (simp_all add: e1_def)
  have no: "\<not> catches [AsyncioCancelledError] e" using assms(2) by (simp add: catches_def)
  have "should_rewrite (task_caller (r_job r3)) w1"
    using assms(4) w'(2) rewrite_settings [OF w1(4), of c]
      should_rewrite_vars [of "task_caller (r_job r3)" c w1] by (simp add: task_caller_def)
  with w' no e1 have "r_phase (w_races w' (kf_future ?kf)) = Ended (TaskRaised (unwind (passed_entry 525) e1))"
    by (simp add: kf_init_def verdict_def conclude_run_def emit_then_def emit_def work_end_def work_line_def
        Let_def e1_def flip: e1_def) (simp add: catches_def e1_def)
  note res = kf_result_raised [OF this w'(7), of None None c evs, simplified nonneg_def option.case, OF TrueI]
  have rew: "should_rewrite c w'" using assms(4) rewrite_settings [of w' w c] w'(5) w1(4) by simp
  let ?raw = "unwind (result_entry 341) (unwind (cf_entry ''result'')
      (unwind (cf_entry ''__get_result'') (unwind (passed_entry 525) e1)))"
  have "pruned True (result_entry 341 # [cf_entry ''result'', cf_entry ''__get_result'', passed_entry 525] @ etb e)
      = result_entry 341 # etb e"
    by (rule pruned_boundary) (simp_all add: assms(5))
  then have raw: "etb (prune_exn True ?raw) = result_entry 341 # etb e" using e1 by simp
  have "pruned True (bridge_entry fn n # [result_entry 341] @ etb e) = bridge_entry fn n # etb e"
    by (rule pruned_boundary) (simp_all add: assms(5))
  then have fin: "etb (prune_exn True (unwind (bridge_entry fn n) (prune_exn True ?raw))) = bridge_entry fn n # etb e"
    using raw by simp
  have "kf_result None None ?kf c w' evs = Some (Inl (prune_exn True ?raw), ?kf, c, w', evs)"
    using assms(2,3) e1 rew
    by (simp add: res convert_future_exc_def result_raises_plain catches_def)
  with fin e1 rew w'(6) w1(5) show ?thesis
    by (simp add: bridge_call_def sub bridge_result_def run)
qed

subsection \<open>Contexts there and back\<close>

lemma map_of_set_items_any: "map_of (set_items xs c) = map_of c ++ map_of (rev xs)"
  by (induction xs arbitrary: c) (auto simp: set_items_def fun_eq_iff map_add_def split: option.splits)

lemma context_there_and_back:
  assumes "ctx_wf c"
  shows "map_of (set_items (set_items sets (set_items c c)) c) = map_of (set_items sets c)"
proof -
  have "ctx_wf (set_items sets (set_items c c))" using assms by simp
  note outer = map_of_set_items [OF this, of c] and inner = map_of_set_items [OF assms, of c]
  show ?thesis
    unfolding outer map_of_set_items_any [of sets] inner
    by (auto simp: fun_eq_iff map_add_def split: option.splits)
qed

subsection \<open>Facts on the generator\<close>

lemma ugen_finally_eq:
  assumes "ugen_finally close r g c w evs = (r', g', c', w', evs')"
  shows "ug_state g' = GenFinished \<and> c' = c \<and>
    rt_now w' \<le> rt_now w + KOIL_CANCEL_TIMEOUT + ACLOSE_TIMEOUT \<and>
    (r' = r \<or> (\<exists>d e l. close = Some (d, Inl e) \<and>
       r' = Inl (unwind (bridge_entry (ug_name g) l)
              (unwind (entry ''koil.utils'' ''aclose_async_gen_threadsafe'' False 164) e))))"
proof -
  define step where "step = (case ug_future g of
           None \<Rightarrow> (g, w, evs)
         | Some kf \<Rightarrow>
             if future_done (kf_future kf) w then (g, w, evs)
             else
               (case kf_cancel (Some ''generator closed'') kf w of (_, kf', w') \<Rightarrow>
                case cf_wait (kf_future kf') (rt_now w' + KOIL_CANCEL_TIMEOUT) evs w' of (w'', evs'') \<Rightarrow>
                  (g\<lparr>ug_future := Some kf'\<rparr>, w'', evs'')))"
  obtain g1 w1 evs1 where s: "step = (g1, w1, evs1)" using prod_cases3 by blast
  have "rt_now u2 \<le> rt_now w + KOIL_CANCEL_TIMEOUT"
    if "kf_cancel (Some ''generator closed'') kf w = (b, kf', u1)"
      and "cf_wait (kf_future kf') (rt_now u1 + KOIL_CANCEL_TIMEOUT) evs u1 = (u2, es)" for b kf kf' u1 u2 es
    using kf_cancel_frame [OF that(1)] cf_wait_now [OF that(2)] by (simp add: KOIL_CANCEL_TIMEOUT_def)
  then have "rt_now w1 \<le> rt_now w + KOIL_CANCEL_TIMEOUT"
    using s unfolding step_def
    by (auto simp: KOIL_CANCEL_TIMEOUT_def split: option.splits if_splits prod.splits)
  moreover obtain a w2 where a: "aclose_async_gen_threadsafe True (ug_loop g1) None close c w1 = (a, w2)"
    by fastforce
  moreover have "rt_now w2 \<le> rt_now w1 + ACLOSE_TIMEOUT \<and> (\<forall>x. a = Inl x \<longrightarrow> (\<exists>d e. close = Some (d, Inl e) \<and>
      x = unwind (entry ''koil.utils'' ''aclose_async_gen_threadsafe'' False 164) e))"
    using a by (auto simp: aclose_async_gen_threadsafe_def Let_def ACLOSE_TIMEOUT_def catches_def koil_simps
        split: if_splits option.splits sum.splits prod.splits)
  ultimately show ?thesis
    using assms s by (auto simp: ugen_finally_def step_def [symmetric] split: sum.splits)
qed

lemma unwound_by_undisturbed:
  assumes "may_submit None c w" "\<not> l_closed (rt_loops w l)" "l_ready (rt_loops w l) = []"
    "ambient_event c = None" "\<not> w_sigint w" and "ecls e = StopAsyncIteration"
  shows "\<exists>w1 x w' kf. run_async_sharing_context l None None None c w = (Inr kf, w1) \<and>
    kf_result None None kf c w1 (undisturbed l (w_nraces w) (Inl e) sets @ evs) = Some (Inl x, kf, c, w', evs) \<and>
    ecls x = StopAsyncIteration"
proof -
  obtain w1 where sub: "run_async_sharing_context l None None None c w = (Inr (kf_init (w_nraces w) (rt_nevents w)), w1)"
    and w1: "w_races w1 (w_nraces w) =
      new_race \<lparr>j_loop = l, j_ctx = c_vars c, j_koil = ambient_koil c, j_own = rt_nevents w,
        j_ambient = None, j_timeout = None, j_signals = None, j_iterates = False, j_call_raises = None\<rparr>"
      "\<not> l_closed (rt_loops w1 l)" "l_ready (rt_loops w1 l) = [CbSubmit (w_nraces w)]" "\<not> w_sigint w1"
    using run_async_submits [OF assms(1,2), of None None] assms(3-5) by auto
  let ?kf = "kf_init (w_nraces w) (rt_nevents w)"
  obtain w' r3 where run: "kf_result None None ?kf c w1 (undisturbed l (w_nraces w) (Inl e) sets @ evs) =
      kf_result None None ?kf c w' evs"
    and w': "r_phase (w_races w' (w_nraces w)) =
        Ended (fst (verdict (should_rewrite (task_caller (r_job r3)) w1) r3))"
      "r_job r3 = \<lparr>j_loop = l, j_ctx = c_vars c, j_koil = ambient_koil c, j_own = rt_nevents w,
        j_ambient = None, j_timeout = None, j_signals = None, j_iterates = False, j_call_raises = None\<rparr>"
      "r_finished r3 = [Work]" "r_done r3 Work = Some (work_end (r_job r3) (work_line (r_job r3)) (Inl e))"
      "\<not> w_sigint w'"
    using kf_result_undisturbed [OF w1(1) _ w1(2,3) _ _ w1(4), of ?kf c "Inl e" sets evs]
    by (force simp: kf_init_def)
  have no: "\<not> catches [AsyncioCancelledError] e" using assms(6) by (simp add: catches_def koil_simps)
  then obtain e1 where "r_phase (w_races w' (kf_future ?kf)) = Ended (TaskRaised e1)" "ecls e1 = StopAsyncIteration"
    using w' assms(6)
    by (auto simp: kf_init_def verdict_def conclude_run_def emit_then_def emit_def work_end_def
        Let_def split: if_splits)
  note res = kf_result_raised [OF this(1) w'(5), of None None c evs, simplified nonneg_def option.case, OF TrueI]
  have "\<exists>x. kf_result None None ?kf c w' evs = Some (Inl x, ?kf, c, w', evs) \<and> ecls x = StopAsyncIteration"
    using \<open>ecls e1 = StopAsyncIteration\<close>
    by (auto simp: res convert_future_exc_def result_raises_plain catches_def koil_simps)
  with sub run show ?thesis by metis
qed

subsection \<open>Facts on sleep\<close>

text \<open>
  The timer \<open>t\<close> does not fire before \<open>d\<close>: it has not fired, is due later, or is still to be
  started by a callback. Other threads do not start timers under the same number.
\<close>

definition timer_ok :: "nat \<Rightarrow> time \<Rightarrow> world \<Rightarrow> bool" where
  "timer_ok t d w \<longleftrightarrow>
     (rt_fired w t \<longrightarrow> d \<le> rt_now w) \<and>
     (\<forall>l due. (due, t) \<in> set (l_timers (rt_loops w l)) \<longrightarrow> d \<le> due) \<and>
     (\<forall>l s. CbCallLater s t \<in> set (l_ready (rt_loops w l)) \<longrightarrow> d \<le> rt_now w + s)"

definition leaves_timer :: "nat \<Rightarrow> wevent \<Rightarrow> bool" where
  "leaves_timer t ev = (case ev of WPost l (CbCallLater s t') \<Rightarrow> t' \<noteq> t | _ \<Rightarrow> True)"

lemma timer_ok_cong:
  "rt_fired w' = rt_fired w \<Longrightarrow> rt_now w' = rt_now w \<Longrightarrow> rt_loops w' = rt_loops w \<Longrightarrow>
   timer_ok t d w' = timer_ok t d w"
  by (simp add: timer_ok_def)

lemma timer_ok_upd [simp]:
  "timer_ok t d (upd_race f r w) = timer_ok t d w" "timer_ok t d (w\<lparr>w_sigint := b\<rparr>) = timer_ok t d w"
  "timer_ok t d (w\<lparr>rt_events := x\<rparr>) = timer_ok t d w"
  by (simp_all add: timer_ok_def upd_race_def)

lemma timer_ok_later: "timer_ok t d w \<Longrightarrow> rt_now w \<le> n \<Longrightarrow> timer_ok t d (w\<lparr>rt_now := n\<rparr>)"
  by (force simp: timer_ok_def)

lemma timer_ok_race_act: "timer_ok t d w \<Longrightarrow> timer_ok t d (race_act f ev w)"
  by (simp add: race_act_def split: option.splits)

lemma timer_ok_pop:
  "timer_ok t d w \<Longrightarrow> l_ready (rt_loops w l) = cb # q \<Longrightarrow>
   timer_ok t d (upd_loop l (\<lambda>x. x\<lparr>l_ready := q\<rparr>) w) \<and> (\<forall>s. cb = CbCallLater s t \<longrightarrow> d \<le> rt_now w + s)"
proof -
  assume ok: "timer_ok t d w" and r: "l_ready (rt_loops w l) = cb # q"
  have "\<forall>s. CbCallLater s t \<in> set (cb # q) \<longrightarrow> d \<le> rt_now w + s"
    using ok r unfolding timer_ok_def by metis
  with ok show ?thesis by (auto simp: timer_ok_def)
qed

lemma timer_ok_exec:
  assumes "timer_ok t d w" and "\<And>s. cb = CbCallLater s t \<Longrightarrow> d \<le> rt_now w + s"
  shows "timer_ok t d (exec_callback l cb w)"
  using assms by (cases cb) (auto simp: timer_ok_def)

lemma timer_ok_run_ready: "timer_ok t d w \<Longrightarrow> timer_ok t d (run_ready l w)"
  using timer_ok_pop by (auto simp: run_ready_def split: list.splits intro!: timer_ok_exec)

lemma timer_ok_wstep: "timer_ok t d w \<Longrightarrow> leaves_timer t ev \<Longrightarrow> timer_ok t d (wstep ev w)"
proof (cases ev)
  case (WTick x)
  then show "timer_ok t d w \<Longrightarrow> timer_ok t d (wstep ev w)" by (simp add: timer_ok_later)
next
  case (WTimers l)
  then show "timer_ok t d w \<Longrightarrow> timer_ok t d (wstep ev w)"
    by (force simp: fire_timers_def timer_ok_def Let_def split: prod.splits)
next
  case (WTurn l)
  then show "timer_ok t d w \<Longrightarrow> timer_ok t d (wstep ev w)"
    by (auto simp: turn_def timer_ok_race_act timer_ok_run_ready split: list.splits callback.splits)
next
  case (WPost l cb)
  then show "timer_ok t d w \<Longrightarrow> leaves_timer t ev \<Longrightarrow> timer_ok t d (wstep ev w)"
    by (auto simp: timer_ok_def leaves_timer_def call_soon_threadsafe_def)
next
  case (WLoopEnds l)
  then show "timer_ok t d w \<Longrightarrow> timer_ok t d (wstep ev w)"
    by (auto simp: timer_ok_def loop_thread_ended_def)
qed (auto simp: timer_ok_race_act)

lemma timer_ok_wait:
  "wait_until P dl evs w = (w', evs') \<Longrightarrow> timer_ok t d w \<Longrightarrow> list_all (leaves_timer t) evs \<Longrightarrow>
   timer_ok t d w' \<and> list_all (leaves_timer t) evs'"
proof (induction P dl evs w rule: wait_until.induct)
  case (2 P dl ev evs w)
  then show ?case
    using timer_ok_wstep [of t d w ev]
    by (cases ev) (auto simp del: wstep.simps simp: timer_ok_later leaves_timer_def split: if_splits)
qed (auto simp: timer_ok_later split: if_splits)

text \<open>How the loop of \<open>sleep\<close> is left.\<close>

definition slept :: "caller \<Rightarrow> time \<Rightarrow> exn + unit \<Rightarrow> world \<Rightarrow> bool" where
  "slept c d r w \<longleftrightarrow>
     (case r of
        Inr _ \<Rightarrow> d \<le> rt_now w
      | Inl x \<Rightarrow> ecls x = ThreadCancelledError \<and> (\<exists>e. ambient_event c = Some e \<and> event_is_set e w))"

lemma timer_okD: "timer_ok t d w \<Longrightarrow> rt_fired w t \<Longrightarrow> d \<le> rt_now w"
  by (simp add: timer_ok_def)

lemma sleep_loop_left:
  "sleep_loop t p c evs w = Some out \<Longrightarrow>
   timer_ok t d w \<and> list_all (leaves_timer t) evs \<longrightarrow> slept c d (fst out) (fst (snd out))"
proof (erule sleep_loop.raw_induct [where P = "\<lambda>t p c evs w out.
    timer_ok t d w \<and> list_all (leaves_timer t) evs \<longrightarrow> slept c d (fst out) (fst (snd out))", rotated])
  fix sl t p c evs w out
  assume IH: "\<And>t p c evs w out. sl t p c evs w = Some out \<Longrightarrow>
      timer_ok t d w \<and> list_all (leaves_timer t) evs \<longrightarrow> slept c d (fst out) (fst (snd out))"
    and body: "(if rt_fired w t then Some (Inr (), w, evs)
      else
        case wait_until (\<lambda>w. rt_fired w t) (rt_now w + p) evs w of
          (w', evs') \<Rightarrow>
            if (case ambient_event c of None \<Rightarrow> False | Some e \<Rightarrow> event_is_set e w')
            then Some (Inl (new_exn (bridge_entry ''sleep'' 212) ThreadCancelledError ''Sleep was cancelled''),
                       w', evs')
            else sl t p c evs' w') = Some out"
  obtain w1 evs1 where wait: "wait_until (\<lambda>w. rt_fired w t) (rt_now w + p) evs w = (w1, evs1)" by fastforce
  show "timer_ok t d w \<and> list_all (leaves_timer t) evs \<longrightarrow> slept c d (fst out) (fst (snd out))"
  proof
    assume ok: "timer_ok t d w \<and> list_all (leaves_timer t) evs"
    then have ok1: "timer_ok t d w1 \<and> list_all (leaves_timer t) evs1"
      using timer_ok_wait [OF wait] by blast
    define hit where "hit = (case ambient_event c of None \<Rightarrow> False | Some e \<Rightarrow> event_is_set e w1)"
    from body have body1: "(if rt_fired w t then Some (Inr (), w, evs)
      else if hit then Some (Inl (new_exn (bridge_entry ''sleep'' 212) ThreadCancelledError ''Sleep was cancelled''),
             w1, evs1)
      else sl t p c evs1 w1) = Some out"
      unfolding wait hit_def prod.case .
    show "slept c d (fst out) (fst (snd out))"
    proof (cases "rt_fired w t")
      case True
      with body1 ok timer_okD show ?thesis by (auto simp: slept_def)
    next
      case False
      show ?thesis
      proof (cases hit)
        case True
        with False body1 have "out = (Inl (new_exn (bridge_entry ''sleep'' 212) ThreadCancelledError
          ''Sleep was cancelled''), w1, evs1)" by simp
        with True show ?thesis by (simp add: slept_def hit_def split: option.splits)
      next
        case nohit: False
        with False body1 have "sl t p c evs1 w1 = Some out" by simp
        from IH [OF this] ok1 show ?thesis by blast
      qed
    qed
  qed
qed

subsection \<open>Properties\<close>


text \<open>
  C21: a value that \<open>unkoil\<close> returns is the value its coroutine returned, whatever happened on
  the loop meanwhile: the task was started on the ambient loop with a copy of the caller's
  context, its work had returned that value when the race was decided, and the caller's
  context is overwritten with the one the work left.
\<close>

theorem unkoil_value_sound:
  assumes "unkoil coro c w evs = Some (Inr v, c', w', evs')"
  shows "\<exists>l j. get_koiled_loop_or_raise (Some coro) c w = Inr l \<and> j_loop j = l \<and> j_ctx j = c_vars c \<and>
    race_at (w_nraces w) j w' \<and> r_phase (w_races w' (w_nraces w)) = Ended (TaskReturned v) \<and>
    r_done (w_races w' (w_nraces w)) Work = Some (TaskReturned v) \<and>
    c' = c\<lparr>c_vars := set_items (r_ctx (w_races w' (w_nraces w))) (c_vars c)\<rparr>"
proof -
  obtain kf w1 kf' where sub: "bridge_submit ''unkoil'' (392, 393, 395) coro None c w = (Inr kf, w1)"
    and res: "kf_result None None kf c w1 evs = Some (Inr v, kf', c', w', evs')"
    using assms
    by (auto simp: unkoil_def bridge_call_def bridge_result_def Let_def
        split: prod.splits sum.splits option.splits)
  obtain l where l: "get_koiled_loop_or_raise (Some coro) c w = Inr l"
    "run_async_sharing_context l None None None c w = (Inr kf, w1)"
    using bridge_submit_InrD [OF sub] by blast
  note new = submit_sharing_race [OF l(2) [unfolded run_async_sharing_context_def]]
  have kf: "kf_future kf = w_nraces w"
    using submit_sharing_InrD [OF l(2) [unfolded run_async_sharing_context_def]] by (simp add: kf_init_def)
  define j where "j = \<lparr>j_loop = l, j_ctx = c_vars c, j_koil = ambient_koil c, j_own = rt_nevents w,
      j_ambient = ambient_event c, j_timeout = None :: time option,
      j_signals = None :: (signal \<Rightarrow> exn option) option, j_iterates = False, j_call_raises = None :: exn option\<rparr>"
  have "race_at (w_nraces w) j w1" by (simp add: race_at_def new j_def reach_init)
  then have at: "race_at (w_nraces w) j w'" using races.kf_result_good [OF res] by blast
  have fin: "r_phase (w_races w' (w_nraces w)) = Ended (TaskReturned v)"
    "c' = c\<lparr>c_vars := set_items (r_ctx (w_races w' (w_nraces w))) (c_vars c)\<rparr>"
    using kf_result_InrD [OF res] kf by simp_all
  have "j_loop j = l" "j_ctx j = c_vars c" by (simp_all add: j_def)
  with l(1) at race_at_value [OF at fin(1)] fin show ?thesis by blast
qed

text \<open>
  C7: \<open>unkoil\<close> returns, and context variables make the round trip. On an idle loop, a
  coroutine that returns \<open>v\<close> after setting some variables makes \<open>unkoil\<close> return \<open>v\<close>, and every
  variable then reads in the caller as if the caller had set those itself.
\<close>

theorem unkoil_roundtrip:
  assumes "plain_call coro l c w" and "ctx_wf (c_vars c)"
  shows "\<exists>c' w'. unkoil coro c w (undisturbed l (w_nraces w) (Inr v) sets @ evs) = Some (Inr v, c', w', evs) \<and>
    (\<forall>x. ctx_get (c_vars c') x = ctx_get (set_items sets (c_vars c)) x) \<and> rt_now w' = rt_now w"
  using plain_result_value [OF assms(1), of "''unkoil''" "(392, 393, 395)" 400 v sets evs]
  by (auto simp: unkoil_def ctx_get_def context_there_and_back [OF assms(2)])

text \<open>
  C22: the exception of a coroutine as \<open>unkoil\<close> raises it: class and message as they were, and
  on the traceback exactly one koil frame, that of \<open>unkoil\<close>, in front of the coroutine's own
  frames.
\<close>

theorem unkoil_traceback:
  assumes "plain_call coro l c w" and "should_rewrite c w" and "user_entries (etb e)"
    and "\<not> catches [CancelledError, KeyboardInterrupt, AsyncioCancelledError] e"
    and "ecls e \<noteq> FuturesCancelledError"
  shows "\<exists>x w'. unkoil coro c w (undisturbed l (w_nraces w) (Inl e) sets @ evs) = Some (Inl x, c, w', evs) \<and>
    ecls x = ecls e \<and> emsg x = emsg e \<and> etb x = bridge_entry ''unkoil'' 400 # etb e"
  using plain_result_raises [OF assms(1,4,5,2,3), of "''unkoil''" "(392, 393, 395)" 400 sets evs]
  by (auto simp: unkoil_def)


text \<open>
  C26: the end of an async generator as the synchronous side sees it, on an idle loop and
  with a cleanup that works. When a later \<open>__anext__\<close> raises \<open>StopAsyncIteration\<close>, the generator
  ends normally, with \<open>StopIteration\<close>; when already the first one does, because the async
  generator is empty, the \<open>StopAsyncIteration\<close> itself is raised into the consumer.
\<close>

theorem unkoil_gen_end:
  assumes "plain_call (ug_target g) l c w" and "ug_timeout g = None" and "ug_state g \<noteq> GenFinished"
    and "ug_state g = GenSuspended \<longrightarrow> ug_loop g = l" and "ecls e = StopAsyncIteration"
  shows "\<exists>x g' w' evs'. ugen_send PyNone (Some (0, Inr PyNone)) g c w
      (undisturbed l (w_nraces w) (Inl e) sets @ evs) = Some (Inl x, g', c, w', evs') \<and>
    ug_state g' = GenFinished \<and>
    ecls x = (if ug_state g = GenSuspended then StopIteration else StopAsyncIteration)"
proof -
  have ok: "may_submit None c w" "\<not> l_closed (rt_loops w l)" "l_ready (rt_loops w l) = []"
    "ambient_event c = None" "\<not> w_sigint w" "get_koiled_loop_or_raise (Some (ug_target g)) c w = Inr l"
    "reject_awaitable_object (ug_target g) fn = None" for fn
    using assms(1) by (auto simp: plain_call_def may_submit_def nonneg_def get_koiled_loop_Inr
        reject_awaitable_object_def)
  obtain w1 x w2 kf where step: "run_async_sharing_context l None None None c w = (Inr kf, w1)"
    "kf_result None None kf c w1 (undisturbed l (w_nraces w) (Inl e) sets @ evs) = Some (Inl x, kf, c, w2, evs)"
    "ecls x = StopAsyncIteration"
    using unwound_by_undisturbed [OF ok(1-5) assms(5)] by blast
  have fin: "\<exists>g' w' evs'. ugen_finally (Some (0, Inr PyNone)) r h c w2 evs = (r, g', c, w', evs') \<and>
      ug_state g' = GenFinished" for r h
    using ugen_finally_eq [of "Some (0, Inr PyNone)" r h c w2 evs]
    by (metis old.sum.simps(4) option.inject prod.inject prod_cases5 sum.distinct(1))
  have c: "catches [StopAsyncIteration] x" using step(3) by (simp add: catches_def koil_simps)
  show ?thesis
  proof (cases "ug_state g")
    case GenSuspended
    have "ugen_send PyNone (Some (0, Inr PyNone)) g c w (undisturbed l (w_nraces w) (Inl e) sets @ evs) =
      Some (ugen_finally (Some (0, Inr PyNone)) (Inl (make_exn StopIteration [])) (g\<lparr>ug_future := Some kf\<rparr>) c w2 evs)"
      using GenSuspended assms(2,4) step c by (simp add: ugen_send_def ugen_step_def)
    with fin [of "Inl (make_exn StopIteration [])"] GenSuspended show ?thesis by (metis make_exn_simps(1))
  next
    case GenFresh
    define e' where "e' = unwind (bridge_entry ''unkoil_gen'' 253) x"
    define e2 where "e2 = (if should_rewrite c w2 then prune_exn True e' else e')"
    have "ugen_send PyNone (Some (0, Inr PyNone)) g c w (undisturbed l (w_nraces w) (Inl e) sets @ evs) =
      Some (ugen_finally (Some (0, Inr PyNone)) (Inl e2) (g\<lparr>ug_loop := l, ug_future := Some kf\<rparr>) c w2 evs)"
      using GenFresh assms(2) step ok(6,7)
      by (simp add: ugen_send_def ugen_step_def e2_def e'_def ug_name_def)
    moreover have "ecls e2 = StopAsyncIteration" using step(3) by (simp add: e2_def e'_def)
    ultimately show ?thesis using fin [of "Inl e2"] GenFresh by (metis gen_state.distinct(1))
  qed (use assms(3) in simp)
qed


text \<open>
  C24: \<open>sleep\<close> on a koil loop. When it returns, the whole time has passed, however often it was
  woken to poll; the only other way out is \<open>ThreadCancelledError\<close>, and then the scope's
  cancel event is set.
\<close>

theorem sleep_whole_time:
  assumes "get_koiled_loop_or_raise None c w = Inr l" and "timer_ok (rt_ntimers w) (rt_now w + seconds) w"
    and "list_all (leaves_timer (rt_ntimers w)) evs"
    and "sleep seconds p c w evs = Some (r, w', evs')"
  shows "slept c (rt_now w + seconds) r w'"
proof -
  have "\<not> l_closed (rt_loops w l)" using assms(1) by (simp add: get_koiled_loop_Inr)
  with assms(1,4) have loop: "sleep_loop (rt_ntimers w) p c evs
      (upd_loop l (\<lambda>x. x\<lparr>l_ready := l_ready x @ [CbCallLater seconds (rt_ntimers w)]\<rparr>)
        (w\<lparr>rt_ntimers := Suc (rt_ntimers w)\<rparr>)) = Some (r, w', evs')"
    by (simp add: sleep_def Let_def koil_simps)
  have "timer_ok (rt_ntimers w) (rt_now w + seconds)
      (upd_loop l (\<lambda>x. x\<lparr>l_ready := l_ready x @ [CbCallLater seconds (rt_ntimers w)]\<rparr>)
        (w\<lparr>rt_ntimers := Suc (rt_ntimers w)\<rparr>))"
    using assms(2) by (auto simp: timer_ok_def)
  with sleep_loop_left [OF loop] assms(3) show ?thesis by auto
qed

subsection \<open>Witnesses\<close>

definition sample_caller :: caller where
  "sample_caller = \<lparr>c_vars = [(global_koil_loop, PyLoop 0), (UserVar ''x'', PyInt 1)], c_running = None\<rparr>"

definition sample_coro :: target where
  "sample_coro = Callable CoroutineFunction (Some ''fetch'') (Some ''fetch'') ''<function fetch>''"

lemma sample_caller_simps [simp]:
  "ambient_loop sample_caller = Some 0" "ambient_koil sample_caller = None"
  "ambient_event sample_caller = None" "c_running sample_caller = None" "ctx_wf (c_vars sample_caller)"
  by (simp_all add: sample_caller_def ambient_loop_def ambient_koil_def ambient_event_def ctx_get_def ctx_wf_def)

lemma sample_plain: "plain_call sample_coro 0 sample_caller init_world"
  by (simp add: plain_call_def sample_coro_def get_koiled_loop_Inr init_rt_def)

theorem unkoil_roundtrip_witness:
  "\<exists>c' w'. unkoil sample_coro sample_caller init_world
      (undisturbed 0 0 (Inr (PyInt 7)) [(UserVar ''x'', PyInt 2)] @ [WSigint]) =
      Some (Inr (PyInt 7), c', w', [WSigint]) \<and> ctx_get (c_vars c') (UserVar ''x'') = PyInt 2"
proof -
  obtain c' w' where out: "unkoil sample_coro sample_caller init_world
      (undisturbed 0 0 (Inr (PyInt 7)) [(UserVar ''x'', PyInt 2)] @ [WSigint]) =
      Some (Inr (PyInt 7), c', w', [WSigint])"
    "\<forall>x. ctx_get (c_vars c') x = ctx_get (set_items [(UserVar ''x'', PyInt 2)] (c_vars sample_caller)) x"
    using unkoil_roundtrip [OF sample_plain sample_caller_simps(5), of "PyInt 7"
        "[(UserVar ''x'', PyInt 2)]" "[WSigint]"] by auto
  from out(2) have "ctx_get (c_vars c') (UserVar ''x'') = PyInt 2"
    by (simp add: set_items_def)
  with out(1) show ?thesis by blast
qed

theorem unkoil_value_sound_witness:
  "\<exists>c' w'. unkoil sample_coro sample_caller init_world (undisturbed 0 0 (Inr (PyInt 7)) [] @ []) =
      Some (Inr (PyInt 7), c', w', []) \<and> r_done (w_races w' 0) Work = Some (TaskReturned (PyInt 7))"
proof -
  obtain c' w' where out: "unkoil sample_coro sample_caller init_world
      (undisturbed 0 0 (Inr (PyInt 7)) [] @ []) = Some (Inr (PyInt 7), c', w', [])"
    using plain_result_value [OF sample_plain, of "''unkoil''" "(392, 393, 395)" 400 "PyInt 7" "[]" "[]"]
    by (auto simp: unkoil_def)
  from unkoil_value_sound [OF out] out show ?thesis by auto
qed

theorem unkoil_traceback_witness:
  "\<exists>x w'. unkoil sample_coro sample_caller init_world
      (undisturbed 0 0 (Inl (new_exn (entry ''app'' ''fetch'' False 12) ValueError ''bad'')) [] @ []) =
      Some (Inl x, sample_caller, w', []) \<and> ecls x = ValueError \<and>
      etb x = [bridge_entry ''unkoil'' 400, entry ''app'' ''fetch'' False 12]"
proof -
  let ?e = "new_exn (entry ''app'' ''fetch'' False 12) ValueError ''bad''"
  have "should_rewrite sample_caller init_world"
    by (simp add: should_rewrite_def py_strip_def py_lower_def)
  moreover have "user_entries (etb ?e)"
    by (simp add: user_entries_def visible_def is_hidden_def entry_def hidden_modules_def)
  moreover have "\<not> catches [CancelledError, KeyboardInterrupt, AsyncioCancelledError] ?e"
    by (simp add: catches_def koil_simps)
  ultimately show ?thesis
    using unkoil_traceback [OF sample_plain, of ?e "[]" "[]"] by auto
qed


theorem unkoil_gen_end_witness:
  "\<exists>x g' w' evs'. ugen_send PyNone (Some (0, Inr PyNone)) (unkoil_gen sample_coro) sample_caller init_world
      (undisturbed 0 0 (Inl (make_exn StopAsyncIteration [])) [] @ []) = Some (Inl x, g', sample_caller, w', evs') \<and>
     ug_state g' = GenFinished \<and> ecls x = StopAsyncIteration"
proof -
  let ?g = "unkoil_gen sample_coro"
  have g: "ug_timeout ?g = None" "ug_state ?g = GenFresh" "ug_target ?g = sample_coro"
    by (simp_all add: unkoil_gen_def)
  from unkoil_gen_end [of ?g 0 sample_caller init_world "make_exn StopAsyncIteration []" "[]" "[]"] sample_plain
  show ?thesis by (simp add: g)
qed


lemma init_timers [simp]: "rt_ntimers init_world = 0" "rt_fired init_world = (\<lambda>_. False)"
  by (simp_all add: init_world_def init_rt_def rt.defs world.defs)

lemma sleep_sample:
  "\<exists>w'. sleep 2 5 sample_caller init_world [WTurn 0, WTick 2, WTimers 0] = Some (Inr (), w', [])"
proof -
  let ?l0 = "fresh_loop DefaultLoop"
  let ?w1 = "init_world\<lparr>rt_ntimers := 1, rt_loops := (rt_loops init_rt)(0 := ?l0\<lparr>l_ready := [CbCallLater 2 0]\<rparr>)\<rparr>"
  let ?w2 = "init_world\<lparr>rt_ntimers := 1, rt_loops := (rt_loops init_rt)(0 := ?l0\<lparr>l_timers := [(2, 0)]\<rparr>)\<rparr>"
  let ?w3 = "?w2\<lparr>rt_now := 2\<rparr>"
  let ?w4 = "?w3\<lparr>rt_loops := (rt_loops init_rt)(0 := ?l0), rt_fired := (\<lambda>t. t = 0)\<rparr>"
  have l0: "rt_loops init_rt 0 = ?l0" by (simp add: init_rt_def fresh_loop_def)
  have "sleep 2 5 sample_caller init_world [WTurn 0, WTick 2, WTimers 0] =
      sleep_loop 0 5 sample_caller [WTurn 0, WTick 2, WTimers 0] ?w1"
    using l0 by (simp add: sleep_def get_koiled_loop_or_raise_def Let_def call_soon_threadsafe_def upd_loop_def)
  moreover have "wstep (WTurn 0) ?w1 = ?w2" "wstep (WTick 2) ?w2 = ?w3" "wstep (WTimers 0) ?w3 = ?w4"
    by (simp_all add: turn_def run_ready_def fire_timers_def upd_loop_def fresh_loop_def)
  then have "wait_until (\<lambda>w. rt_fired w 0) 5 [WTurn 0, WTick 2, WTimers 0] ?w1 = (?w4, [])"
    by (simp del: wstep.simps)
  then have "sleep_loop 0 5 sample_caller [WTurn 0, WTick 2, WTimers 0] ?w1 = sleep_loop 0 5 sample_caller [] ?w4"
    by (subst sleep_loop.simps) (simp del: wait_until.simps)
  moreover have "sleep_loop 0 5 sample_caller [] ?w4 = Some (Inr (), ?w4, [])"
    by (subst sleep_loop.simps) simp
  ultimately show ?thesis by simp
qed

theorem sleep_whole_time_witness:
  "\<exists>w'. sleep 2 5 sample_caller init_world [WTurn 0, WTick 2, WTimers 0] = Some (Inr (), w', []) \<and> 2 \<le> rt_now w'"
proof -
  obtain w' where out: "sleep 2 5 sample_caller init_world [WTurn 0, WTick 2, WTimers 0] = Some (Inr (), w', [])"
    using sleep_sample by blast
  have "get_koiled_loop_or_raise None sample_caller init_world = Inr 0"
    by (simp add: get_koiled_loop_Inr init_rt_def)
  moreover have "timer_ok (rt_ntimers init_world) (rt_now init_world + 2) init_world"
    by (simp add: timer_ok_def init_rt_def)
  ultimately have "slept sample_caller (rt_now init_world + 2) (Inr ()) w'"
    using sleep_whole_time [OF _ _ _ out] by (simp add: leaves_timer_def)
  with out show ?thesis by (simp add: slept_def)
qed

end
