(* ===== verification/Koil_Threaded.thy ===== *)
theory Koil_Threaded
  imports Koil_Bridge
begin

section \<open>From the loop to worker threads (koil/bridge.py)\<close>

text \<open>
  \<open>run_threaded\<close> and \<open>iterate_threaded\<close> with their bridged variants. The synchronous function is
  a parameter: given the frame it runs in and the time at which its cancel event is set, if
  it is, a \<open>worker\<close> says when it ends, how, and which variables it set; \<open>None\<close> if it never
  ends. All times count from the start of the call.
\<close>

type_synonym worker = "caller \<Rightarrow> time option \<Rightarrow> (time \<times> (exn + pyval) \<times> ctx) option"

subsection \<open>Contexts\<close>

definition BRIDGE_INTERNAL_VARS :: "ctxvar list" where
  "BRIDGE_INTERNAL_VARS = [global_koil, global_koil_loop, current_cancel_event]"

text \<open>\<open>_propagate_context_out\<close>: the loop over the variables of the worker's context.\<close>

fun propagate_context_out :: "ctx \<Rightarrow> caller \<Rightarrow> caller" where
  "propagate_context_out [] c = c"
| "propagate_context_out ((v, x) # items) c =
     (if v \<in> set BRIDGE_INTERNAL_VARS then propagate_context_out items c
      else propagate_context_out items (set_var v x c))"

subsection \<open>run\_threaded\<close>

text \<open>
  The worker's frame: the copied context with koil's three variables set in it; no loop runs
  on the worker's thread.
\<close>

definition worker_caller :: "nat \<Rightarrow> nat \<Rightarrow> caller \<Rightarrow> caller" where
  "worker_caller l cancel_event c =
     set_var current_cancel_event (PyEvent cancel_event)
       (set_var global_koil_loop (PyLoop l)
         (set_var global_koil (py_ref PyKoil (ambient_koil c))
           \<lparr>c_vars = c_vars c, c_running = None\<rparr>))"

text \<open>
  What comes out of the worker's thread: \<open>StopIteration\<close> is turned into \<open>RuntimeError\<close>, the
  frames of the executor, of \<open>wrapper\<close> and of \<open>body\<close> are on the traceback, and asyncio turns a
  \<open>concurrent.futures.CancelledError\<close> of the worker, such as that of a nested call which was
  cancelled, into its own.
\<close>

definition hidden_bridge :: "string \<Rightarrow> int \<Rightarrow> tb_entry" where
  "hidden_bridge fn line = entry ''koil.bridge'' fn True line"

definition worker_frames :: "int \<Rightarrow> exn \<Rightarrow> exn" where
  "worker_frames body_line e =
     unwind (entry ''concurrent.futures.thread'' ''run'' False 0)
       (unwind (hidden_bridge ''wrapper'' 617) (unwind (hidden_bridge ''body'' body_line) e))"

definition stop_iteration_error :: "exn \<Rightarrow> exn" where
  "stop_iteration_error e =
     Exn RuntimeError ''Threaded function raised StopIteration'' []
       (Some (unwind (hidden_bridge ''body'' 612) e)) (Some (unwind (hidden_bridge ''body'' 612) e))"

definition worker_outcome :: "exn + pyval \<Rightarrow> exn + pyval" where
  "worker_outcome r =
     (case r of
        Inr v \<Rightarrow> Inr v
      | Inl e \<Rightarrow>
          if catches [StopIteration] e then Inl (worker_frames 615 (stop_iteration_error e))
          else Inl (convert_future_exc (worker_frames 612 e)))"

text \<open>\<open>koil.cancel_timeout if koil else 10\<close>: a koil whose timeout is \<open>None\<close> waits for ever.\<close>

definition worker_grace :: "caller \<Rightarrow> 'z rt_scheme \<Rightarrow> time option" where
  "worker_grace c s = (case ambient_koil c of Some k \<Rightarrow> k_cancel_timeout (rt_koils s k) | None \<Rightarrow> Some 10)"

text \<open>
  The \<open>wait_for\<close> of a call whose await raised \<open>asyncio.CancelledError\<close>: what is raised, how long
  after the cancellation. The frames of asyncio and the implicit \<open>__context__\<close> of what is
  raised in the handler are left out.
\<close>

definition asyncio_cancelled :: "int \<Rightarrow> exn" where
  "asyncio_cancelled line = new_exn (hidden_bridge ''_run_threaded'' line) AsyncioCancelledError []"

definition unacknowledged :: "exn \<Rightarrow> exn" where
  "unacknowledged te =
     new_exn_from (hidden_bridge ''_run_threaded'' 643) KoilError
       ''We could not successfully cancel the future in another thread.''
       (unwind (hidden_bridge ''_run_threaded'' 639) te)"

text \<open>
  \<open>e\<close> is the cancellation, \<open>ended\<close> when after it the worker ended and how, \<open>again\<close> when the task is
  cancelled a second time, if it is. \<open>give_up\<close> is what ends the wait if the worker does not.
\<close>

definition give_up :: "time option \<Rightarrow> time option \<Rightarrow> (time \<times> exn) option" where
  "give_up grace again =
     (case (grace, again) of
        (None, None) \<Rightarrow> None
      | (Some g, None) \<Rightarrow> Some (max 0 g, unacknowledged (make_exn TimeoutError []))
      | (None, Some a) \<Rightarrow> Some (max 0 a, asyncio_cancelled 639)
      | (Some g, Some a) \<Rightarrow>
          if max 0 a < max 0 g then Some (max 0 a, asyncio_cancelled 639)
          else Some (max 0 g, unacknowledged (make_exn TimeoutError [])))"

definition await_worker ::
    "time option \<Rightarrow> time option \<Rightarrow> exn \<Rightarrow> (time \<times> (exn + pyval)) option \<Rightarrow> (time \<times> exn) option" where
  "await_worker grace again e ended =
     (case ended of
        None \<Rightarrow> give_up grace again
      | Some (d, r) \<Rightarrow>
          if (case give_up grace again of None \<Rightarrow> True | Some (t, _) \<Rightarrow> d \<le> t) then
            (case r of
               Inr v \<Rightarrow> Some (max 0 d, unwind (hidden_bridge ''_run_threaded'' 647) e)
             | Inl x \<Rightarrow>
                 if catches [ThreadCancelledError] x
                 then Some (max 0 d, unwind (hidden_bridge ''_run_threaded'' 647) e)
                 else if catches [TimeoutError] x then Some (max 0 d, unacknowledged x)
                 else Some (max 0 d, unwind (hidden_bridge ''_run_threaded'' 639) x))
          else give_up grace again)"

text \<open>The handler of \<open>asyncio.CancelledError\<close>: it sets the cancel event and waits for the worker.\<close>

definition cancel_worker ::
    "nat \<Rightarrow> time option \<Rightarrow> exn \<Rightarrow> (time \<times> (exn + pyval)) option \<Rightarrow> caller \<Rightarrow> world \<Rightarrow>
     ((exn + pyval) \<times> caller \<times> world) option" where
  "cancel_worker ev again e ended c w =
     (case event_set ev w of
        Inl x \<Rightarrow> Some (Inl (unwind (hidden_bridge ''_run_threaded'' 636) x), c, w)
      | Inr w' \<Rightarrow>
          (case await_worker (worker_grace c w') again e ended of
             None \<Rightarrow> None
           | Some (t, x) \<Rightarrow> Some (Inl x, c, w'\<lparr>rt_now := rt_now w' + t\<rparr>)))"

text \<open>
  \<open>_run_threaded\<close>. \<open>cancel\<close> is when the awaiting task is cancelled, \<open>again\<close> when after that it is
  cancelled once more. \<open>None\<close>: the call never ends. A worker that ends before the
  cancellation is not affected by it; if it ends with \<open>asyncio.CancelledError\<close>, the handler
  takes that for a cancellation of the task.
\<close>

definition worker_first :: "(time \<times> 'a) option \<Rightarrow> time option \<Rightarrow> bool" where
  "worker_first ended cancel =
     (case (ended, cancel) of
        (Some (d, _), Some tc) \<Rightarrow> d \<le> tc | (Some _, None) \<Rightarrow> True | (None, _) \<Rightarrow> False)"

definition run_threaded_impl ::
    "worker \<Rightarrow> bool \<Rightarrow> time option \<Rightarrow> time option \<Rightarrow> caller \<Rightarrow> world \<Rightarrow>
     ((exn + pyval) \<times> caller \<times> world) option" where
  "run_threaded_impl sync_func bridge cancel again c w =
     (case c_running c of
        None \<Rightarrow> Some (Inl (new_exn (hidden_bridge ''_run_threaded'' 591) RuntimeError ''no running event loop''), c, w)
      | Some l \<Rightarrow>
          let (ev, w1) = event_init l w;
              wc = worker_caller l ev c;
              ended = sync_func wc None
          in if worker_first ended cancel then
               (case the ended of (d, r, sets) \<Rightarrow>
                  let w2 = w1\<lparr>rt_now := rt_now w1 + max 0 d\<rparr>
                  in case worker_outcome r of
                    Inl e \<Rightarrow>
                      if catches [AsyncioCancelledError] e
                      then cancel_worker ev again (unwind (hidden_bridge ''_run_threaded'' 634) e)
                             (Some (0, Inl e)) c w2
                      else Some (Inl (unwind (hidden_bridge ''_run_threaded'' 634) e), c, w2)
                  | Inr v \<Rightarrow>
                      Some (Inr v,
                        if bridge then propagate_context_out (set_items sets (c_vars wc)) c else c, w2))
             else
               (case cancel of
                  None \<Rightarrow> None
                | Some tc \<Rightarrow>
                    cancel_worker ev again (asyncio_cancelled 634)
                      (map_option (\<lambda>(d, r, _). (d - max 0 tc, worker_outcome r)) (sync_func wc (Some (max 0 tc))))
                      c (w1\<lparr>rt_now := rt_now w1 + max 0 tc\<rparr>)))"

text \<open>The public functions prune what leaves them and keep their own frame.\<close>

definition pruned_at ::
    "tb_entry \<Rightarrow> ((exn + pyval) \<times> caller \<times> world) option \<Rightarrow> ((exn + pyval) \<times> caller \<times> world) option" where
  "pruned_at t out =
     (case out of
        None \<Rightarrow> None
      | Some (Inr v, rest) \<Rightarrow> Some (Inr v, rest)
      | Some (Inl e, c', w') \<Rightarrow>
          Some (Inl (if should_rewrite c' w' then prune_exn True (unwind t e) else unwind t e), c', w'))"

definition run_threaded ::
    "worker \<Rightarrow> time option \<Rightarrow> time option \<Rightarrow> caller \<Rightarrow> world \<Rightarrow> ((exn + pyval) \<times> caller \<times> world) option" where
  "run_threaded sync_func cancel again c w =
     pruned_at (bridge_entry ''run_threaded'' 701) (run_threaded_impl sync_func False cancel again c w)"

definition run_threaded_bridged ::
    "worker \<Rightarrow> time option \<Rightarrow> time option \<Rightarrow> caller \<Rightarrow> world \<Rightarrow> ((exn + pyval) \<times> caller \<times> world) option" where
  "run_threaded_bridged sync_func cancel again c w =
     pruned_at (bridge_entry ''run_threaded_bridged'' 732) (run_threaded_impl sync_func True cancel again c w)"

subsection \<open>iterate\_threaded\<close>

text \<open>
  The synchronous generator is a parameter: what its \<open>n\<close>-th resumption with a sent value does
  on a worker, and what closing it does. A resumption yields, returns (raises
  \<open>StopIteration\<close>), or raises; the first one also creates the generator.
\<close>

record syncgen =
  sg_resume :: "nat \<Rightarrow> pyval \<Rightarrow> worker"
  sg_close :: "nat \<Rightarrow> worker"

text \<open>\<open>step\<close>: \<open>StopIteration\<close> is turned into \<open>KoilStopIteration\<close>.\<close>

definition step_worker :: "worker \<Rightarrow> worker" where
  "step_worker f c cancelled =
     map_option (\<lambda>(d, r, sets).
       (d, case r of
             Inr v \<Rightarrow> Inr v
           | Inl e \<Rightarrow>
               if catches [StopIteration] e
               then Inl (Exn KoilStopIteration ''Generator exhausted'' [hidden_bridge ''step'' 769] None
                      (Some (unwind (hidden_bridge ''step'' 765) e)))
               else Inl (unwind (hidden_bridge ''step'' 765) e), sets))
       (f c cancelled)"

text \<open>
  The async generator object: whether the body is at its start, at the \<open>yield\<close> or over, and how
  many resumptions the synchronous generator has had.
\<close>

record agen =
  ag_gen :: syncgen
  ag_bridge :: bool
  ag_state :: gen_state
  ag_steps :: nat

definition iterate_threaded_impl :: "syncgen \<Rightarrow> bool \<Rightarrow> agen" where
  "iterate_threaded_impl g bridge = \<lparr>ag_gen = g, ag_bridge = bridge, ag_state = GenFresh, ag_steps = 0\<rparr>"

definition iterate_threaded :: "syncgen \<Rightarrow> agen" where
  "iterate_threaded g = iterate_threaded_impl g False"

definition iterate_threaded_bridged :: "syncgen \<Rightarrow> agen" where
  "iterate_threaded_bridged g = iterate_threaded_impl g True"

text \<open>
  \<open>asend(v)\<close> (\<open>__anext__\<close> sends \<open>None\<close>), with the cancellation of the awaiting task as for
  \<open>run_threaded\<close>: one turn of the loop. The end of the body is \<open>StopAsyncIteration\<close> for the consumer.
\<close>

definition agen_send ::
    "pyval \<Rightarrow> time option \<Rightarrow> time option \<Rightarrow> agen \<Rightarrow> caller \<Rightarrow> world \<Rightarrow>
     ((exn + pyval) \<times> agen \<times> caller \<times> world) option" where
  "agen_send v cancel again g c w =
     (if ag_state g = GenFinished then Some (Inl (make_exn StopAsyncIteration []), g, c, w)
      else if ag_state g = GenFresh \<and> v \<noteq> PyNone
      then Some (Inl (make_exn TypeError ''can't send non-None value to a just-started async generator''), g, c, w)
      else
        (case run_threaded_impl (step_worker (sg_resume (ag_gen g) (ag_steps g) v)) (ag_bridge g) cancel again c w of
           None \<Rightarrow> None
         | Some (Inr value, c', w') \<Rightarrow>
             Some (Inr value, g\<lparr>ag_state := GenSuspended, ag_steps := Suc (ag_steps g)\<rparr>, c', w')
         | Some (Inl e, c', w') \<Rightarrow>
             let e' = unwind (bridge_entry ''_iterate_threaded'' 774) e;
                 g' = g\<lparr>ag_state := GenFinished, ag_steps := Suc (ag_steps g)\<rparr>
             in if catches [KoilStopIteration] e'
                then Some (Inl (make_exn StopAsyncIteration []), g', c', w')
                else Some (Inl (if should_rewrite c' w' then prune_exn True e' else e'), g', c', w')))"

text \<open>
  \<open>aclose()\<close>: at the \<open>yield\<close>, \<open>GeneratorExit\<close> makes the body close the synchronous generator on a
  worker; before the first step there is none.
\<close>

definition agen_aclose ::
    "time option \<Rightarrow> time option \<Rightarrow> agen \<Rightarrow> caller \<Rightarrow> world \<Rightarrow> ((exn + pyval) \<times> agen \<times> caller \<times> world) option" where
  "agen_aclose cancel again g c w =
     (if ag_state g \<noteq> GenSuspended then Some (Inr PyNone, g\<lparr>ag_state := GenFinished\<rparr>, c, w)
      else
        (case run_threaded_impl (sg_close (ag_gen g) (ag_steps g)) (ag_bridge g) cancel again c w of
           None \<Rightarrow> None
         | Some (Inr _, c', w') \<Rightarrow> Some (Inr PyNone, g\<lparr>ag_state := GenFinished\<rparr>, c', w')
         | Some (Inl e, c', w') \<Rightarrow>
             let e' = unwind (bridge_entry ''_iterate_threaded'' 790) e
             in Some (Inl (if should_rewrite c' w' then prune_exn True e' else e'),
                      g\<lparr>ag_state := GenFinished\<rparr>, c', w')))"

text \<open>\<open>athrow(e)\<close> of anything but \<open>GeneratorExit\<close> leaves the body at the \<open>yield\<close>, without closing.\<close>

definition agen_athrow ::
    "exn \<Rightarrow> time option \<Rightarrow> time option \<Rightarrow> agen \<Rightarrow> caller \<Rightarrow> world \<Rightarrow>
     ((exn + pyval) \<times> agen \<times> caller \<times> world) option" where
  "agen_athrow e cancel again g c w =
     (if catches [GeneratorExit] e
      then (case agen_aclose cancel again g c w of
              Some (Inr _, rest) \<Rightarrow> Some (Inl e, rest) | out \<Rightarrow> out)
      else Some (Inl e, g\<lparr>ag_state := GenFinished\<rparr>, c, w))"

subsection \<open>What is propagated\<close>

lemma propagate_eq: "propagate_context_out items c =
   c\<lparr>c_vars := set_items (filter ((\<lambda>v. v \<notin> set BRIDGE_INTERNAL_VARS) \<circ> fst) items) (c_vars c)\<rparr>"
  by (induction items c rule: propagate_context_out.induct) (auto simp: set_items_def set_var_def)

lemma ctx_get_propagate:
  assumes "ctx_wf items"
  shows "ctx_get (c_vars (propagate_context_out items c)) x =
    (if x \<in> set BRIDGE_INTERNAL_VARS \<or> x \<notin> fst ` set items then ctx_get (c_vars c) x else ctx_get items x)"
proof -
  have "map_of (c_vars (propagate_context_out items c)) = map_of (c_vars c) ++
      (map_of items |` {v. v \<notin> set BRIDGE_INTERNAL_VARS})"
    using ctx.read_copy_filter [OF assms, of "\<lambda>v. v \<notin> set BRIDGE_INTERNAL_VARS" "c_vars c"]
    by (simp add: propagate_eq set_items_def)
  moreover have "x \<notin> fst ` set items \<longleftrightarrow> map_of items x = None" by (simp add: map_of_eq_None_iff)
  ultimately show ?thesis
    by (auto simp: ctx_get_def map_add_def restrict_map_def split: option.splits)
qed

lemma worker_caller_simps [simp]:
  "ambient_koil (worker_caller l e c) = ambient_koil c" "ambient_loop (worker_caller l e c) = Some l"
  "ambient_event (worker_caller l e c) = Some e" "c_running (worker_caller l e c) = None"
  "ctx_wf (c_vars c) \<Longrightarrow> ctx_wf (c_vars (worker_caller l e c))"
  by (simp_all add: worker_caller_def py_ref_def ambient_koil_def split: option.splits pyval.splits)

lemma worker_caller_get:
  "x \<notin> set BRIDGE_INTERNAL_VARS \<Longrightarrow> ctx_get (c_vars (worker_caller l e c)) x = ctx_get (c_vars c) x"
  by (auto simp: worker_caller_def BRIDGE_INTERNAL_VARS_def)

lemma ctx_get_absent: "x \<notin> fst ` set c \<Longrightarrow> ctx_get c x = PyNone"
  by (metis ctx_get_def map_of_eq_None_iff option.simps(4))

lemma ctx_get_items: "ctx_get (set_items xs c) x = (case map_of (rev xs) x of None \<Rightarrow> ctx_get c x | Some y \<Rightarrow> y)"
  by (simp add: ctx_get_def map_of_set_items_any map_add_def split: option.splits)

lemma fst_ctx_set: "fst ` set (ctx_set v x c) = insert v (fst ` set c)"
  by (simp flip: dom_map_of_conv_image_fst)

lemma fst_set_items: "fst ` set c \<subseteq> fst ` set (set_items xs c)"
  by (auto simp: map_of_set_items_any simp flip: dom_map_of_conv_image_fst)

lemma fst_worker_caller: "fst ` set (c_vars c) \<subseteq> fst ` set (c_vars (worker_caller l e c))"
  by (simp add: worker_caller_def fst_ctx_set subset_insertI2)

text \<open>The variables a bridged call leaves behind: the worker's, except for koil's own.\<close>

lemma ctx_get_bridged:
  assumes "ctx_wf (c_vars c)"
  shows "ctx_get (c_vars (propagate_context_out (set_items sets (c_vars (worker_caller l e c))) c)) x =
    (if x \<in> set BRIDGE_INTERNAL_VARS then ctx_get (c_vars c) x else ctx_get (set_items sets (c_vars c)) x)"
proof -
  let ?items = "set_items sets (c_vars (worker_caller l e c))"
  have same: "ctx_get ?items x = ctx_get (set_items sets (c_vars c)) x" if "x \<notin> set BRIDGE_INTERNAL_VARS"
    using worker_caller_get [OF that, of l e c] by (simp add: ctx_get_items split: option.split)
  have "ctx_get ?items x = ctx_get (c_vars c) x" if "x \<notin> fst ` set ?items"
    using that fst_worker_caller [of c l e] fst_set_items [of "c_vars (worker_caller l e c)" sets]
    by (metis ctx_get_absent subsetD)
  then show ?thesis
    using same assms by (auto simp: ctx_get_propagate)
qed

subsection \<open>How a call ends\<close>

lemma cancel_worker_SomeD:
  "cancel_worker ev again e ended c w = Some (r, c', w') \<Longrightarrow> c' = c \<and> (\<exists>x. r = Inl x)"
  by (auto simp: cancel_worker_def split: sum.splits option.splits)

lemma run_threaded_impl_first:
  assumes "c_running c = Some l" and "f (worker_caller l (rt_nevents w) c) None = Some (d, r, sets)"
    and "worker_first (Some (d, r, sets)) cancel"
  shows "run_threaded_impl f bridge cancel again c w =
    (let w2 = (snd (event_init l w))\<lparr>rt_now := rt_now w + max 0 d\<rparr>
     in case worker_outcome r of
       Inl e \<Rightarrow>
         if catches [AsyncioCancelledError] e
         then cancel_worker (rt_nevents w) again (unwind (hidden_bridge ''_run_threaded'' 634) e) (Some (0, Inl e)) c w2
         else Some (Inl (unwind (hidden_bridge ''_run_threaded'' 634) e), c, w2)
     | Inr v \<Rightarrow>
         Some (Inr v, if bridge then propagate_context_out (set_items sets
           (c_vars (worker_caller l (rt_nevents w) c))) c else c, w2))"
  using assms by (simp add: run_threaded_impl_def event_init_def Let_def cong: sum.case_cong if_cong)

lemma run_threaded_impl_cancelled:
  assumes "c_running c = Some l"
    and "\<not> worker_first (f (worker_caller l (rt_nevents w) c) None) (Some tc)" and "0 \<le> tc"
  shows "run_threaded_impl f bridge (Some tc) again c w =
    cancel_worker (rt_nevents w) again (asyncio_cancelled 634)
      (map_option (\<lambda>(d, r, _). (d - tc, worker_outcome r)) (f (worker_caller l (rt_nevents w) c) (Some tc)))
      c ((snd (event_init l w))\<lparr>rt_now := rt_now w + tc\<rparr>)"
  using assms by (simp add: run_threaded_impl_def event_init_def Let_def)

lemma run_threaded_impl_cases:
  assumes "run_threaded_impl f bridge cancel again c w = Some (r, c', w')"
  obtains (no_loop) x where "c_running c = None" "r = Inl x" "ecls x = RuntimeError" "c' = c" "w' = w"
  | (ended) l d r0 sets where "c_running c = Some l"
      "f (worker_caller l (rt_nevents w) c) None = Some (d, r0, sets)"
      "worker_first (Some (d, r0, sets)) cancel"
  | (cancelled) l tc where "c_running c = Some l" "cancel = Some tc"
      "\<not> worker_first (f (worker_caller l (rt_nevents w) c) None) (Some tc)"
      "c' = c" "\<exists>x. r = Inl x"
proof (cases "c_running c")
  case None
  with assms show ?thesis by (intro no_loop) (auto simp: run_threaded_impl_def)
next
  case (Some l)
  let ?f = "f (worker_caller l (rt_nevents w) c) None"
  show ?thesis
  proof (cases "worker_first ?f cancel")
    case True
    then obtain d r0 sets where "?f = Some (d, r0, sets)" by (cases ?f) (auto simp: worker_first_def)
    with True Some show ?thesis by (intro ended) auto
  next
    case False
    with assms Some obtain tc where tc: "cancel = Some tc"
      by (cases cancel) (auto simp: run_threaded_impl_def event_init_def Let_def)
    with assms Some False have "c' = c \<and> (\<exists>x. r = Inl x)"
      by (auto simp: run_threaded_impl_def event_init_def Let_def dest: cancel_worker_SomeD)
    with Some tc False show ?thesis by (intro cancelled) auto
  qed
qed

lemma run_threaded_impl_value:
  assumes "run_threaded_impl f bridge cancel again c w = Some (Inr v, c', w')"
  obtains l d sets where "c_running c = Some l"
    "f (worker_caller l (rt_nevents w) c) None = Some (d, Inr v, sets)"
    "c' = (if bridge then propagate_context_out (set_items sets (c_vars (worker_caller l (rt_nevents w) c))) c else c)"
    "rt_now w' = rt_now w + max 0 d"
  using assms
proof (cases rule: run_threaded_impl_cases)
  case (ended l d r0 sets)
  note eq = run_threaded_impl_first [of c l f w d r0 sets cancel bridge again, OF ended]
  have "r0 = Inr v"
    using assms eq by (cases r0) (auto simp: Let_def worker_outcome_def dest: cancel_worker_SomeD split: if_splits)
  with assms eq ended show ?thesis
    by (intro that [of l d sets]) (auto simp: Let_def worker_outcome_def)
qed auto

lemma run_threaded_impl_error:
  assumes "run_threaded_impl f bridge cancel again c w = Some (Inl x, c', w')"
  shows "c' = c"
  using assms
proof (cases rule: run_threaded_impl_cases)
  case (ended l d r0 sets)
  from run_threaded_impl_first [of c l f w d r0 sets cancel bridge again, OF ended] assms show ?thesis
    by (auto simp: Let_def dest: cancel_worker_SomeD cancel_worker_SomeD [OF sym] split: sum.splits if_splits)
qed auto

lemma pruned_at_SomeD:
  assumes "pruned_at t out = Some (r, c', w')"
  obtains r' where "out = Some (r', c', w')"
    "\<And>v. r = Inr v \<longleftrightarrow> r' = Inr v" "\<And>x. r = Inl x \<Longrightarrow> \<exists>e. r' = Inl e \<and> ecls e = ecls x"
  using assms by (auto simp: pruned_at_def split: option.splits sum.splits if_splits)

lemma pruned_at_InlD:
  "pruned_at t out = Some (Inl x, c', w') \<Longrightarrow> \<exists>e. out = Some (Inl e, c', w') \<and> ecls e = ecls x"
  by (auto simp: pruned_at_def split: option.splits sum.splits if_splits)

lemma give_up_bound: "give_up (Some g) again = Some (t, x) \<Longrightarrow> 0 \<le> t \<and> t \<le> max 0 g"
  by (auto simp: give_up_def split: option.splits if_splits)

lemma await_worker_bound: "\<exists>t x. await_worker (Some g) again e ended = Some (t, x) \<and> 0 \<le> t \<and> t \<le> max 0 g"
proof -
  have "give_up (Some g) again \<noteq> None"
    by (simp add: give_up_def split: option.splits)
  then obtain t0 x0 where g: "give_up (Some g) again = Some (t0, x0)" by auto
  from give_up_bound [OF this] g show ?thesis
    by (auto simp: await_worker_def split: option.splits sum.splits)
qed

lemma event_init_frame [simp]:
  "rt_loops (snd (event_init l w)) = rt_loops w" "rt_koils (snd (event_init l w)) = rt_koils w"
  "rt_now (snd (event_init l w)) = rt_now w" "rt_environ (snd (event_init l w)) = rt_environ w"
  "rt_rewrite_tracebacks (snd (event_init l w)) = rt_rewrite_tracebacks w"
  "ev_loop (rt_events (snd (event_init l w)) (rt_nevents w)) = l"
  "rt_nevents (snd (event_init l w)) = Suc (rt_nevents w)"
  by (simp_all add: event_init_def Let_def)

lemma worker_grace_upd [simp]:
  "worker_grace c (w\<lparr>rt_now := n\<rparr>) = worker_grace c w" "worker_grace c (snd (event_init l w)) = worker_grace c w"
  "worker_grace c (upd_loop l f w) = worker_grace c w"
  by (simp_all add: worker_grace_def upd_loop_def split: option.split)

lemma cancel_worker_ends:
  assumes "\<not> l_closed (rt_loops w (ev_loop (rt_events w ev)))"
    and "await_worker (worker_grace c w) again e ended = Some (t, x)"
  shows "\<exists>w'. cancel_worker ev again e ended c w = Some (Inl x, c, w') \<and> rt_now w' = rt_now w + t"
  using assms by (simp add: cancel_worker_def event_set_def call_soon_threadsafe_def)

text \<open>What a cancelled call raises, by how its worker ended.\<close>

definition cancel_verdict :: "exn + pyval \<Rightarrow> exn_class" where
  "cancel_verdict r =
     (case r of
        Inr v \<Rightarrow> AsyncioCancelledError
      | Inl e \<Rightarrow>
          if catches [StopIteration] e then RuntimeError
          else if ecls e = FuturesCancelledError \<or> catches [ThreadCancelledError] e then AsyncioCancelledError
          else if catches [TimeoutError] e then KoilError
          else ecls e)"

lemma worker_frames_simps [simp]:
  "ecls (worker_frames n e) = ecls e" "emsg (worker_frames n e) = emsg e"
  "catches cs (worker_frames n e) = catches cs e"
  "ecls (stop_iteration_error e) = RuntimeError" "ecls (asyncio_cancelled n) = AsyncioCancelledError"
  "ecls (unacknowledged e) = KoilError"
  by (simp_all add: worker_frames_def stop_iteration_error_def asyncio_cancelled_def unacknowledged_def new_exn_from_def)

lemma ecls_convert [simp]:
  "ecls (convert_future_exc e) = (if ecls e = FuturesCancelledError then AsyncioCancelledError else ecls e)"
  by (simp add: convert_future_exc_def)

lemma catches_cls: "catches cs e = list_ex (issubclass (ecls e)) cs"
  by (simp add: catches_def)

lemma await_worker_None:
  "await_worker (Some g) None e None = Some (max 0 g, unacknowledged (make_exn TimeoutError []))"
  by (simp add: await_worker_def give_up_def)

lemma await_worker_late:
  "max 0 g < d \<Longrightarrow>
   await_worker (Some g) None e (Some (d, r)) = Some (max 0 g, unacknowledged (make_exn TimeoutError []))"
  by (auto simp: await_worker_def give_up_def max_def split: if_splits)

lemma await_worker_in_time:
  assumes "d \<le> max 0 g" and "ecls e = AsyncioCancelledError"
  shows "\<exists>x. await_worker (Some g) None e (Some (d, worker_outcome r)) = Some (max 0 d, x) \<and> ecls x = cancel_verdict r"
proof (cases r)
  case (Inl x)
  show ?thesis
  proof (cases "catches [StopIteration] x")
    case True
    with assms Inl show ?thesis
      by (simp add: await_worker_def give_up_def worker_outcome_def cancel_verdict_def catches_cls koil_simps)
  next
    case False
    with assms Inl show ?thesis
      by (auto simp: await_worker_def give_up_def worker_outcome_def cancel_verdict_def catches_cls koil_simps)
  qed
qed (use assms in \<open>simp add: await_worker_def give_up_def worker_outcome_def cancel_verdict_def\<close>)

lemma should_rewrite_after [simp]:
  "should_rewrite c (snd (event_init l w)) = should_rewrite c w"
  by (simp add: should_rewrite_def cong: option.case_cong)

lemma cancel_worker_no_stop:
  assumes "cancel_worker ev again e ended c w = Some (Inl x, c', w')" and "catches [AsyncioCancelledError] e"
    and "\<And>d y. ended = Some (d, Inl y) \<Longrightarrow> \<not> catches [StopIteration] y"
    and "\<not> catches [StopIteration] e"
  shows "\<not> catches [StopIteration] x"
  using assms
  by (auto simp: cancel_worker_def await_worker_def give_up_def event_set_def call_soon_threadsafe_def
      catches_cls koil_simps split: option.splits if_splits sum.splits)

lemma worker_outcome_no_stop: "worker_outcome r = Inl y \<Longrightarrow> \<not> catches [StopIteration] y"
  by (auto simp: worker_outcome_def catches_cls koil_simps split: sum.splits if_splits)

lemma run_threaded_impl_no_stop:
  assumes "run_threaded_impl f bridge cancel again c w = Some (Inl x, c', w')"
  shows "\<not> catches [StopIteration] x"
  using assms
proof (cases rule: run_threaded_impl_cases)
  case no_loop
  then show ?thesis by (simp add: catches_cls koil_simps)
next
  case (ended l d r0 sets)
  note eq = run_threaded_impl_first [of c l f w d r0 sets cancel bridge again, OF ended]
  with assms obtain y where y: "worker_outcome r0 = Inl y" by (auto simp: Let_def split: sum.splits)
  with worker_outcome_no_stop have "\<not> catches [StopIteration] y" by blast
  with assms eq y show ?thesis
    using cancel_worker_no_stop [of "rt_nevents w" again _ "Some (0, Inl y)" c _ x c' w']
    by (auto simp: Let_def split: if_splits)
next
  case (cancelled l tc)
  let ?ended = "map_option (\<lambda>(d, r, _). (d - max 0 tc, worker_outcome r)) (f (worker_caller l (rt_nevents w) c) (Some (max 0 tc)))"
  have run: "cancel_worker (rt_nevents w) again (asyncio_cancelled 634) ?ended c
      ((snd (event_init l w))\<lparr>rt_now := rt_now w + max 0 tc\<rparr>) = Some (Inl x, c', w')"
    using assms cancelled(1-3) by (simp add: run_threaded_impl_def event_init_def Let_def)
  have "\<not> catches [StopIteration] y" if "?ended = Some (d, Inl y)" for d y
    using that by (auto simp: worker_outcome_no_stop)
  from cancel_worker_no_stop [OF run _ this] show ?thesis
    by (simp add: catches_cls koil_simps)
qed

subsection \<open>One step of the iteration\<close>

text \<open>A consumer that sends the values \<open>vs\<close> one after the other and stops at an exception.\<close>

fun drive :: "pyval list \<Rightarrow> agen \<Rightarrow> caller \<Rightarrow> world \<Rightarrow> ((exn_class + pyval) list \<times> agen \<times> caller) option" where
  "drive [] g c w = Some ([], g, c)"
| "drive (v # vs) g c w =
     (case agen_send v None None g c w of
        None \<Rightarrow> None
      | Some (Inl e, g', c', w') \<Rightarrow> Some ([Inl (ecls e)], g', c')
      | Some (Inr x, g', c', w') \<Rightarrow> map_option (\<lambda>(rs, g'', c''). (Inr x # rs, g'', c'')) (drive vs g' c' w'))"

definition next_caller :: "bool \<Rightarrow> ctx \<Rightarrow> nat \<Rightarrow> nat \<Rightarrow> caller \<Rightarrow> caller" where
  "next_caller bridge sets l ev c =
     (if bridge then propagate_context_out (set_items sets (c_vars (worker_caller l ev c))) c else c)"

lemma next_caller_simps [simp]:
  "c_running (next_caller b sets l ev c) = c_running c"
  "ctx_wf (c_vars c) \<Longrightarrow> ctx_wf (c_vars (next_caller b sets l ev c))"
  by (simp_all add: next_caller_def propagate_eq)

lemma ctx_get_next_caller:
  "ctx_wf (c_vars c) \<Longrightarrow> ctx_get (c_vars (next_caller b sets l ev c)) x =
    (if b \<and> x \<notin> set BRIDGE_INTERNAL_VARS then ctx_get (set_items sets (c_vars c)) x else ctx_get (c_vars c) x)"
  by (simp add: next_caller_def ctx_get_bridged)

lemma agen_send_yields:
  assumes "ag_state g \<noteq> GenFinished" and "ag_state g = GenFresh \<longrightarrow> v = PyNone" and "c_running c = Some l"
    and "sg_resume (ag_gen g) (ag_steps g) v (worker_caller l (rt_nevents w) c) None = Some (d, Inr x, sets)"
  shows "agen_send v None None g c w =
    Some (Inr x, g\<lparr>ag_state := GenSuspended, ag_steps := Suc (ag_steps g)\<rparr>,
      next_caller (ag_bridge g) sets l (rt_nevents w) c, (snd (event_init l w))\<lparr>rt_now := rt_now w + max 0 d\<rparr>)"
proof -
  let ?f = "step_worker (sg_resume (ag_gen g) (ag_steps g) v)"
  have "?f (worker_caller l (rt_nevents w) c) None = Some (d, Inr x, sets)" using assms(4) by (simp add: step_worker_def)
  from run_threaded_impl_first [of c l ?f w d "Inr x" sets None "ag_bridge g" None, OF assms(3) this] assms(1,2)
  show ?thesis by (auto simp: agen_send_def worker_first_def worker_outcome_def Let_def next_caller_def)
qed

lemma agen_send_ends:
  assumes "ag_state g \<noteq> GenFinished" and "ag_state g = GenFresh \<longrightarrow> v = PyNone" and "c_running c = Some l"
    and "sg_resume (ag_gen g) (ag_steps g) v (worker_caller l (rt_nevents w) c) None = Some (d, Inl e, sets)"
    and "catches [StopIteration] e"
  shows "agen_send v None None g c w =
    Some (Inl (make_exn StopAsyncIteration []), g\<lparr>ag_state := GenFinished, ag_steps := Suc (ag_steps g)\<rparr>, c,
      (snd (event_init l w))\<lparr>rt_now := rt_now w + max 0 d\<rparr>)"
proof -
  let ?f = "step_worker (sg_resume (ag_gen g) (ag_steps g) v)"
  let ?e = "Exn KoilStopIteration ''Generator exhausted'' [hidden_bridge ''step'' 769] None
      (Some (unwind (hidden_bridge ''step'' 765) e))"
  have "?f (worker_caller l (rt_nevents w) c) None = Some (d, Inl ?e, sets)"
    using assms(4,5) by (simp add: step_worker_def)
  from run_threaded_impl_first [of c l ?f w d "Inl ?e" sets None "ag_bridge g" None, OF assms(3) this] assms(1,2)
  show ?thesis
    by (auto simp: agen_send_def worker_first_def worker_outcome_def Let_def catches_cls koil_simps)
qed

lemma drive_sequence:
  assumes "\<And>k v cl. k < length xs \<Longrightarrow> sg_resume g k v cl None = Some (ds k, Inr (xs ! k), sets k)"
    and "\<And>v cl. sg_resume g (length xs) v cl None = Some (dn, Inl e, sn)" and "catches [StopIteration] e"
  shows "ag_gen ag = g \<Longrightarrow> ag_steps ag + length vs = Suc (length xs) \<Longrightarrow> ag_steps ag \<le> length xs \<Longrightarrow>
    ag_state ag \<noteq> GenFinished \<Longrightarrow> (ag_state ag = GenFresh \<longrightarrow> hd vs = PyNone) \<Longrightarrow>
    c_running c = Some l \<Longrightarrow> ctx_wf (c_vars c) \<Longrightarrow>
    \<exists>ag' c'. drive vs ag c w = Some (map Inr (drop (ag_steps ag) xs) @ [Inl StopAsyncIteration], ag', c') \<and>
      ag_state ag' = GenFinished \<and>
      (\<forall>x. ctx_get (c_vars c') x =
        (if ag_bridge ag \<and> x \<notin> set BRIDGE_INTERNAL_VARS
         then ctx_get (set_items (concat (map sets [ag_steps ag..<length xs])) (c_vars c)) x
         else ctx_get (c_vars c) x))"
proof (induction vs arbitrary: ag c w)
  case (Cons v vs)
  let ?n = "ag_steps ag"
  show ?case
  proof (cases "?n < length xs")
    case True
    let ?ag = "ag\<lparr>ag_state := GenSuspended, ag_steps := Suc ?n\<rparr>"
    let ?c = "next_caller (ag_bridge ag) (sets ?n) l (rt_nevents w) c"
    let ?w = "(snd (event_init l w))\<lparr>rt_now := rt_now w + max 0 (ds ?n)\<rparr>"
    have send: "agen_send v None None ag c w = Some (Inr (xs ! ?n), ?ag, ?c, ?w)"
      using Cons.prems True assms(1) by (intro agen_send_yields) auto
    obtain ag' c' where rest: "drive vs ?ag ?c ?w = Some (map Inr (drop (Suc ?n) xs) @ [Inl StopAsyncIteration], ag', c')"
      "ag_state ag' = GenFinished"
      "\<forall>x. ctx_get (c_vars c') x =
        (if ag_bridge ag \<and> x \<notin> set BRIDGE_INTERNAL_VARS
         then ctx_get (set_items (concat (map sets [Suc ?n..<length xs])) (c_vars ?c)) x
         else ctx_get (c_vars ?c) x)"
      using Cons.IH [of ?ag ?c ?w] Cons.prems True by auto
    have "set_items (concat (map sets [?n..<length xs])) (c_vars c) =
        set_items (concat (map sets [Suc ?n..<length xs])) (set_items (sets ?n) (c_vars c))"
      using True by (simp add: upt_conv_Cons set_items_def)
    then have "ctx_get (c_vars c') x =
        (if ag_bridge ag \<and> x \<notin> set BRIDGE_INTERNAL_VARS
         then ctx_get (set_items (concat (map sets [?n..<length xs])) (c_vars c)) x
         else ctx_get (c_vars c) x)" for x
      using rest(3) Cons.prems(7) by (auto simp: ctx_get_next_caller ctx_get_items split: option.split)
    then show ?thesis
      using send rest(1,2) True by (simp add: Cons_nth_drop_Suc [symmetric])
  next
    case False
    with Cons.prems have n: "?n = length xs" by simp
    have "agen_send v None None ag c w = Some (Inl (make_exn StopAsyncIteration []),
        ag\<lparr>ag_state := GenFinished, ag_steps := Suc ?n\<rparr>, c, (snd (event_init l w))\<lparr>rt_now := rt_now w + max 0 dn\<rparr>)"
      using Cons.prems n assms(2,3) by (intro agen_send_ends) auto
    with n show ?thesis by (simp add: set_items_def)
  qed
qed simp

subsection \<open>Properties of run\_threaded\<close>

text \<open>
  C28: context variables across a threaded call. \<open>run_threaded\<close> never changes the caller's
  context. \<open>run_threaded_bridged\<close> leaves it alone when it raises, and when it returns, every
  variable has the value the worker left it with, except for koil's own three, which keep
  the caller's.
\<close>

theorem threaded_context:
  assumes "ctx_wf (c_vars c)" and "run_threaded f cancel again c w = Some (r1, c1, w1)"
    and "run_threaded_bridged f cancel again c w = Some (r2, c2, w2)"
  shows "c1 = c \<and>
    (case r2 of
       Inl x \<Rightarrow> c2 = c
     | Inr v \<Rightarrow>
         \<exists>l d sets. c_running c = Some l \<and>
           f (worker_caller l (rt_nevents w) c) None = Some (d, Inr v, sets) \<and>
           (\<forall>x. ctx_get (c_vars c2) x =
             (if x \<in> {global_koil, global_koil_loop, current_cancel_event} then ctx_get (c_vars c) x
              else ctx_get (set_items sets (c_vars c)) x)))"
proof -
  obtain r1' where "run_threaded_impl f False cancel again c w = Some (r1', c1, w1)"
    using assms(2) unfolding run_threaded_def by (elim pruned_at_SomeD)
  then have "c1 = c"
    by (cases r1') (auto dest: run_threaded_impl_error elim: run_threaded_impl_value)
  moreover obtain r2' where out: "run_threaded_impl f True cancel again c w = Some (r2', c2, w2)"
    and r2: "\<And>v. r2 = Inr v \<longleftrightarrow> r2' = Inr v" "\<And>x. r2 = Inl x \<Longrightarrow> \<exists>e. r2' = Inl e"
    using assms(3) unfolding run_threaded_bridged_def by (elim pruned_at_SomeD) blast
  ultimately show ?thesis
  proof (cases r2')
    case (Inl e)
    with out have "c2 = c" by (auto dest: run_threaded_impl_error)
    with \<open>c1 = c\<close> Inl r2(1) show ?thesis by (cases r2) auto
  next
    case (Inr v)
    with out obtain l d sets where "c_running c = Some l"
      "f (worker_caller l (rt_nevents w) c) None = Some (d, Inr v, sets)"
      "c2 = propagate_context_out (set_items sets (c_vars (worker_caller l (rt_nevents w) c))) c"
      by (auto elim: run_threaded_impl_value)
    moreover have "r2 = Inr v" using Inr r2(1) by blast
    ultimately show ?thesis
      using \<open>c1 = c\<close> ctx_get_bridged [OF assms(1)] by (auto simp: BRIDGE_INTERNAL_VARS_def)
  qed
qed

text \<open>
  C29: a cancelled \<open>run_threaded\<close> always ends, whatever the worker does, even if it never
  looks at its cancel event: at the latest when the koil's cancel timeout (ten seconds
  without a koil) has passed after the cancellation.
\<close>

theorem threaded_cancel_bounded:
  assumes "c_running c = Some l" and "\<not> l_closed (rt_loops w l)" and "worker_grace c w = Some g" and "0 \<le> tc"
  shows "\<exists>r w'. run_threaded f (Some tc) again c w = Some (r, c, w') \<and> rt_now w' \<le> rt_now w + tc + max 0 g"
proof -
  let ?f = "f (worker_caller l (rt_nevents w) c) None"
  have canc: "\<exists>x w'. cancel_worker (rt_nevents w) again e ended c ((snd (event_init l w))\<lparr>rt_now := n\<rparr>) =
      Some (Inl x, c, w') \<and> rt_now w' \<le> n + max 0 g" for e ended n
    using await_worker_bound [of g again e ended] assms
      cancel_worker_ends [of "(snd (event_init l w))\<lparr>rt_now := n\<rparr>" "rt_nevents w" c again e ended] by fastforce
  have "\<exists>r w'. run_threaded_impl f False (Some tc) again c w = Some (r, c, w') \<and> rt_now w' \<le> rt_now w + tc + max 0 g"
  proof (cases "worker_first ?f (Some tc)")
    case True
    then obtain d r sets where d: "?f = Some (d, r, sets)" "d \<le> tc" by (cases ?f) (auto simp: worker_first_def)
    then have le: "rt_now w + max 0 d \<le> rt_now w + tc + max 0 g"
      using assms(4) by (auto simp: max_def)
    note eq = run_threaded_impl_first [of c l f w d r sets "Some tc" False again]
    show ?thesis
      using eq True d le canc [of _ _ "rt_now w + max 0 d"] assms(1,4)
      by (fastforce simp: Let_def split: sum.splits)
  next
    case False
    with canc [of _ _ "rt_now w + tc"] show ?thesis
      unfolding run_threaded_impl_cancelled [of c l f w tc, OF assms(1) False assms(4)] by blast
  qed
  then show ?thesis by (auto simp: run_threaded_def pruned_at_def split: sum.splits)
qed

text \<open>
  C14: what a cancelled call raises. A worker that ends within the cancel timeout because it
  noticed the cancellation (\<open>check_cancelled\<close> raised) or that still returns makes the call raise
  \<open>asyncio.CancelledError\<close> at the moment it ends; another exception of the worker takes its
  place, but a \<open>TimeoutError\<close> of the worker is reported as if the worker had not ended. A
  worker that does not end in time gives \<open>KoilError\<close> when the timeout has passed.
\<close>

theorem threaded_cancel_outcome:
  assumes "c_running c = Some l" and "\<not> l_closed (rt_loops w l)" and "worker_grace c w = Some g" and "0 \<le> tc"
    and "\<not> worker_first (f (worker_caller l (rt_nevents w) c) None) (Some tc)"
  shows "\<exists>x w'. run_threaded f (Some tc) None c w = Some (Inl x, c, w') \<and>
    (case f (worker_caller l (rt_nevents w) c) (Some tc) of
       Some (d, r, sets) \<Rightarrow>
         if d \<le> tc + max 0 g then ecls x = cancel_verdict r \<and> rt_now w' = rt_now w + max tc d
         else ecls x = KoilError \<and> rt_now w' = rt_now w + tc + max 0 g
     | None \<Rightarrow> ecls x = KoilError \<and> rt_now w' = rt_now w + tc + max 0 g)"
proof -
  let ?w = "(snd (event_init l w))\<lparr>rt_now := rt_now w + tc\<rparr>"
  let ?f = "f (worker_caller l (rt_nevents w) c) (Some tc)"
  let ?ended = "map_option (\<lambda>(d, r, _). (d - tc, worker_outcome r)) ?f"
  have ends: "\<exists>w'. cancel_worker (rt_nevents w) None (asyncio_cancelled 634) ?ended c ?w = Some (Inl x, c, w') \<and>
      rt_now w' = rt_now w + tc + t"
    if "await_worker (Some g) None (asyncio_cancelled 634) ?ended = Some (t, x)" for t x
    using cancel_worker_ends [of ?w "rt_nevents w" c None "asyncio_cancelled 634" ?ended t x] assms(2,3) that by simp
  have "\<exists>t x. await_worker (Some g) None (asyncio_cancelled 634) ?ended = Some (t, x) \<and>
    (case ?f of
       Some (d, r, sets) \<Rightarrow>
         if d \<le> tc + max 0 g then ecls x = cancel_verdict r \<and> t = max 0 (d - tc)
         else ecls x = KoilError \<and> t = max 0 g
     | None \<Rightarrow> ecls x = KoilError \<and> t = max 0 g)"
  proof (cases ?f)
    case (Some out)
    then obtain d r sets where "?f = Some (d, r, sets)" by (cases out) auto
    then show ?thesis
      using await_worker_in_time [of "d - tc" g "asyncio_cancelled 634" r]
        await_worker_late [of g "d - tc" "asyncio_cancelled 634" "worker_outcome r"]
      by (cases "d \<le> tc + max 0 g") (auto simp: not_le max_def split: if_splits)
  qed (simp add: await_worker_None)
  then obtain t x where tx: "await_worker (Some g) None (asyncio_cancelled 634) ?ended = Some (t, x)"
    "case ?f of
       Some (d, r, sets) \<Rightarrow>
         if d \<le> tc + max 0 g then ecls x = cancel_verdict r \<and> t = max 0 (d - tc)
         else ecls x = KoilError \<and> t = max 0 g
     | None \<Rightarrow> ecls x = KoilError \<and> t = max 0 g" by blast
  obtain w' where w': "run_threaded_impl f False (Some tc) None c w = Some (Inl x, c, w')"
    "rt_now w' = rt_now w + tc + t"
    using ends [OF tx(1)] run_threaded_impl_cancelled [of c l f w tc, OF assms(1,5,4)] by auto
  have "\<exists>y. run_threaded f (Some tc) None c w = Some (Inl y, c, w') \<and> ecls y = ecls x"
    using w'(1) by (auto simp: run_threaded_def pruned_at_def)
  then show ?thesis
    using tx(2) w'(2) by (force simp: max_def split: option.splits prod.splits if_splits)
qed

text \<open>
  C30: no \<open>StopIteration\<close>, nor a subclass of it, ever leaves a threaded call, so a coroutine that
  awaits one is never ended by it.
\<close>

theorem threaded_no_stop_iteration:
  assumes "run_threaded f cancel again c w = Some (Inl x, c', w') \<or>
           run_threaded_bridged f cancel again c w = Some (Inl x, c', w')"
  shows "\<not> catches [StopIteration] x"
proof -
  obtain t bridge where "pruned_at t (run_threaded_impl f bridge cancel again c w) = Some (Inl x, c', w')"
    using assms unfolding run_threaded_def run_threaded_bridged_def by blast
  then obtain e where "run_threaded_impl f bridge cancel again c w = Some (Inl e, c', w')" "ecls e = ecls x"
    using pruned_at_InlD by blast
  with run_threaded_impl_no_stop [of f bridge cancel again c w e] show ?thesis by (simp add: catches_cls)
qed

text \<open>
  An exception of the threaded function reaches the caller with exactly one koil frame, that
  of \<open>run_threaded\<close>, in front of the function's own frames.
\<close>

lemma threaded_traceback:
  assumes "c_running c = Some l" and "f (worker_caller l (rt_nevents w) c) None = Some (d, Inl e, sets)"
    and "should_rewrite c w" and "user_entries (etb e)"
    and "\<not> catches [StopIteration, AsyncioCancelledError, FuturesCancelledError] e"
  shows "\<exists>x w'. run_threaded f None again c w = Some (Inl x, c, w') \<and> ecls x = ecls e \<and> emsg x = emsg e \<and>
    etb x = bridge_entry ''run_threaded'' 701 # etb e"
proof -
  let ?e = "unwind (hidden_bridge ''_run_threaded'' 634) (worker_frames 612 e)"
  have nf: "ecls e \<noteq> FuturesCancelledError" using assms(5) by (auto simp: catches_cls koil_simps)
  then have out: "worker_outcome (Inl e) = Inl (worker_frames 612 e)"
    using assms(5) by (simp add: worker_outcome_def convert_future_exc_def catches_cls)
  have run: "run_threaded_impl f False None again c w =
      Some (Inl ?e, c, (snd (event_init l w))\<lparr>rt_now := rt_now w + max 0 d\<rparr>)"
    using run_threaded_impl_first [of c l f w d "Inl e" sets None False again] assms out
    by (simp add: worker_first_def Let_def catches_cls)
  have "pruned True (bridge_entry ''run_threaded'' 701 #
      [hidden_bridge ''_run_threaded'' 634, entry ''concurrent.futures.thread'' ''run'' False 0,
       hidden_bridge ''wrapper'' 617, hidden_bridge ''body'' 612] @ etb e) = bridge_entry ''run_threaded'' 701 # etb e"
    by (rule pruned_boundary)
      (simp_all add: assms(4) hidden_bridge_def, simp add: hidden_entries_def is_hidden_def entry_def hidden_modules_def)
  with run assms(3) show ?thesis
    by (simp add: run_threaded_def pruned_at_def worker_frames_def)
qed

subsection \<open>Properties of iterate\_threaded\<close>

text \<open>
  C13: the async generator is the synchronous one, step by step. If the synchronous generator
  yields the values \<open>xs\<close> and returns, a consumer sees exactly these values in this order and
  then \<open>StopAsyncIteration\<close>, whatever it sends. The variables the steps set are visible to
  the caller and to later steps with \<open>iterate_threaded_bridged\<close>, koil's own excepted; with
  \<open>iterate_threaded\<close> the caller's context is unchanged.
\<close>

theorem iterate_threaded_sequence:
  assumes "c_running c = Some l" and "ctx_wf (c_vars c)"
    and "\<And>k v cl. k < length xs \<Longrightarrow> sg_resume g k v cl None = Some (ds k, Inr (xs ! k), sets k)"
    and "\<And>v cl. sg_resume g (length xs) v cl None = Some (dn, Inl e, sn)" and "catches [StopIteration] e"
    and "length vs = length xs"
  shows "\<exists>ag' c'. drive (PyNone # vs) (if bridge then iterate_threaded_bridged g else iterate_threaded g) c w =
      Some (map Inr xs @ [Inl StopAsyncIteration], ag', c') \<and> ag_state ag' = GenFinished \<and>
    (\<forall>x. ctx_get (c_vars c') x =
      (if bridge \<and> x \<notin> {global_koil, global_koil_loop, current_cancel_event}
       then ctx_get (set_items (concat (map sets [0..<length xs])) (c_vars c)) x
       else ctx_get (c_vars c) x))"
proof -
  have "(if bridge then iterate_threaded_bridged g else iterate_threaded g) = iterate_threaded_impl g bridge"
    by (simp add: iterate_threaded_def iterate_threaded_bridged_def)
  then show ?thesis
    using drive_sequence [of xs g ds sets dn e sn "iterate_threaded_impl g bridge" "PyNone # vs" c l w, OF assms(3-5)]
      assms(1,2,6)
    by (simp only: iterate_threaded_impl_def BRIDGE_INTERNAL_VARS_def agen.simps) simp
qed

subsection \<open>Witnesses\<close>

definition on_loop :: caller where
  "on_loop = \<lparr>c_vars = [(UserVar ''x'', PyInt 1)], c_running = Some 0\<rparr>"

lemma on_loop_simps [simp]:
  "c_running on_loop = Some 0" "ctx_wf (c_vars on_loop)" "ambient_koil on_loop = None"
  "worker_grace on_loop w = Some 10" "\<not> l_closed (rt_loops init_rt 0)"
  by (simp_all add: on_loop_def ctx_wf_def ambient_koil_def ctx_get_def worker_grace_def init_rt_def)

text \<open>A worker that sets a variable, one that never ends, one that notices its cancellation.\<close>

definition setter :: worker where
  "setter c k = Some (1, Inr (PyInt 7), [(UserVar ''x'', PyInt 2), (global_koil_loop, PyNone)])"

definition stubborn :: worker where
  "stubborn c k = None"

definition polite :: worker where
  "polite c k = map_option (\<lambda>t. (t + 1, Inl (make_exn ThreadCancelledError []), [])) k"

definition failing :: "exn_class \<Rightarrow> worker" where
  "failing x c k = Some (1, Inl (new_exn (entry ''app'' ''work'' False 5) x ''bad''), [])"

lemma setter_runs:
  "\<exists>c' w'. pruned_at t (run_threaded_impl setter bridge None again on_loop init_world) = Some (Inr (PyInt 7), c', w')"
  by (simp add: pruned_at_def run_threaded_impl_def event_init_def worker_first_def setter_def worker_outcome_def Let_def)

theorem threaded_context_witness:
  "\<exists>c' w'. run_threaded_bridged setter None None on_loop init_world = Some (Inr (PyInt 7), c', w') \<and>
     ctx_get (c_vars c') (UserVar ''x'') = PyInt 2 \<and> ctx_get (c_vars c') global_koil_loop = PyNone"
proof -
  obtain c1 w1 c2 w2 where out: "run_threaded setter None None on_loop init_world = Some (Inr (PyInt 7), c1, w1)"
    "run_threaded_bridged setter None None on_loop init_world = Some (Inr (PyInt 7), c2, w2)"
    using setter_runs unfolding run_threaded_def run_threaded_bridged_def by meson
  from threaded_context [OF _ out]
  obtain sets where "sets = [(UserVar ''x'', PyInt 2), (global_koil_loop, PyNone)]"
    "ctx_get (c_vars c2) x = (if x \<in> {global_koil, global_koil_loop, current_cancel_event}
       then ctx_get (c_vars on_loop) x else ctx_get (set_items sets (c_vars on_loop)) x)" for x
    by (auto simp: setter_def)
  then have "ctx_get (c_vars c2) (UserVar ''x'') = PyInt 2" "ctx_get (c_vars c2) global_koil_loop = PyNone"
    by (simp_all add: set_items_def on_loop_def ctx_get_def)
  with out(2) show ?thesis by blast
qed

theorem threaded_cancel_bounded_witness:
  "\<exists>r w'. run_threaded stubborn (Some 3) None on_loop init_world = Some (r, on_loop, w') \<and> rt_now w' \<le> 13"
  using threaded_cancel_bounded [of on_loop 0 init_world 10 3 stubborn None] by simp

theorem threaded_cancel_outcome_witness:
  "\<exists>x w'. run_threaded polite (Some 3) None on_loop init_world = Some (Inl x, on_loop, w') \<and>
     ecls x = AsyncioCancelledError \<and> rt_now w' = 4"
proof -
  have "\<not> worker_first (polite (worker_caller 0 (rt_nevents init_world) on_loop) None) (Some 3)"
    by (simp add: polite_def worker_first_def)
  moreover have "polite (worker_caller 0 (rt_nevents init_world) on_loop) (Some 3) =
      Some (4, Inl (make_exn ThreadCancelledError []), [])"
    by (simp add: polite_def)
  moreover have "cancel_verdict (Inl (make_exn ThreadCancelledError [])) = AsyncioCancelledError"
    by (simp add: cancel_verdict_def catches_cls koil_simps)
  ultimately show ?thesis
    using threaded_cancel_outcome [of on_loop 0 init_world 10 3 polite] by simp
qed

theorem threaded_no_stop_iteration_witness:
  "\<exists>x c' w'. run_threaded (failing StopIteration) None None on_loop init_world = Some (Inl x, c', w') \<and>
     \<not> catches [StopIteration] x"
proof -
  have "\<exists>x c' w'. run_threaded (failing StopIteration) None None on_loop init_world = Some (Inl x, c', w')"
    by (simp add: run_threaded_def pruned_at_def run_threaded_impl_def event_init_def worker_first_def failing_def
        worker_outcome_def catches_cls koil_simps Let_def)
  then obtain x c' w' where "run_threaded (failing StopIteration) None None on_loop init_world = Some (Inl x, c', w')"
    by blast
  with threaded_no_stop_iteration [of "failing StopIteration" None None on_loop init_world x c' w'] show ?thesis by blast
qed

lemma threaded_traceback_witness:
  "\<exists>x w'. run_threaded (failing ValueError) None None on_loop init_world = Some (Inl x, on_loop, w') \<and>
     etb x = [bridge_entry ''run_threaded'' 701, entry ''app'' ''work'' False 5]"
proof -
  let ?e = "new_exn (entry ''app'' ''work'' False 5) ValueError ''bad''"
  have "should_rewrite on_loop init_world"
    by (simp add: should_rewrite_def py_strip_def py_lower_def)
  moreover have "user_entries (etb ?e)"
    by (simp add: user_entries_def visible_def is_hidden_def entry_def hidden_modules_def)
  moreover have "\<not> catches [StopIteration, AsyncioCancelledError, FuturesCancelledError] ?e"
    by (simp add: catches_def koil_simps)
  ultimately show ?thesis
    using threaded_traceback [of on_loop 0 "failing ValueError" init_world 1 ?e "[]" None]
    by (auto simp: failing_def)
qed

definition counting :: syncgen where
  "counting = \<lparr>sg_resume = (\<lambda>n v c k.
      if n < 2 then Some (0, Inr ([PyInt 1, PyInt 2] ! n), [(UserVar ''x'', PyInt (int n))])
      else Some (0, Inl (make_exn StopIteration []), [])),
    sg_close = (\<lambda>n c k. Some (0, Inr PyNone, []))\<rparr>"

theorem iterate_threaded_sequence_witness:
  "\<exists>ag' c'. drive [PyNone, PyNone, PyNone] (iterate_threaded_bridged counting) on_loop init_world =
     Some ([Inr (PyInt 1), Inr (PyInt 2), Inl StopAsyncIteration], ag', c') \<and>
     ctx_get (c_vars c') (UserVar ''x'') = PyInt 1"
proof -
  let ?sets = "\<lambda>n. [(UserVar ''x'', PyInt (int n))]"
  have "sg_resume counting k v cl None = Some (0, Inr ([PyInt 1, PyInt 2] ! k), ?sets k)"
    if "k < length [PyInt 1, PyInt 2]" for k v cl
    using that by (simp add: counting_def)
  moreover have "sg_resume counting (length [PyInt 1, PyInt 2]) v cl None = Some (0, Inl (make_exn StopIteration []), [])"
    for v cl by (simp add: counting_def)
  moreover have "catches [StopIteration] (make_exn StopIteration [])" by (simp add: catches_def koil_simps)
  ultimately obtain ag' c' where "drive [PyNone, PyNone, PyNone] (iterate_threaded_bridged counting) on_loop init_world =
      Some (map Inr [PyInt 1, PyInt 2] @ [Inl StopAsyncIteration], ag', c')"
    and "ctx_get (c_vars c') (UserVar ''x'') =
      ctx_get (set_items (concat (map ?sets [0..<length [PyInt 1, PyInt 2]])) (c_vars on_loop)) (UserVar ''x'')"
    using iterate_threaded_sequence [of on_loop 0 "[PyInt 1, PyInt 2]" counting "\<lambda>_. 0" ?sets 0
        "make_exn StopIteration []" "[]" "[PyNone, PyNone]" True init_world]
    by (auto simp del: drive.simps)
  then show ?thesis by (simp add: set_items_def upt_conv_Cons del: drive.simps)
qed

end
