(* ===== verification/Koil_Decorators.thy ===== *)
theory Koil_Decorators
  imports Koil_Threaded
begin

section \<open>Decorators (koil/decorators.py)\<close>

text \<open>
  The class decorator \<open>koilable\<close> with the \<open>__enter__\<close> and \<open>__exit__\<close> it generates, the
  function decorator \<open>koiled\<close> with its wrappers, and \<open>koiled_cm\<close>. The coroutine methods
  \<open>__aenter__\<close> and \<open>__aexit__\<close> are targets of \<open>unkoil\<close>; what they do on the loop is in the list
  of events. \<open>d\<close> is how long the thread of a loop takes to end, as for \<open>koil_exit\<close>.
\<close>

definition deco_entry :: "string \<Rightarrow> bool \<Rightarrow> int \<Rightarrow> tb_entry" where
  "deco_entry fn hide line = entry ''koil.decorators'' fn hide line"

subsection \<open>koilable: the checks\<close>

text \<open>
  A class as the decorator sees it: its name, what kind of function its \<open>__aenter__\<close> and
  \<open>__aexit__\<close> are (\<open>None\<close>: it has none), and the methods set on it, which name the field of
  the koil.
\<close>

datatype koil_method =
    KoiledEnter string
  | KoiledExit string
  | KoiledParamExit string
  | ForwardAenter
  | ForwardAexit
  | OwnMethod nat

record pyclass =
  cls_name :: string
  cls_aenter :: "fkind option"
  cls_aexit :: "fkind option"
  cls_koilable :: bool
  cls_methods :: "string \<Rightarrow> koil_method option"

text \<open>How \<open>koilable\<close> was applied: bare, with a field name first (the legacy form), or called with keywords.\<close>

datatype koilable_form = BareForm | LegacyForm string | FactoryForm

definition real_cls_decorator :: "bool \<Rightarrow> string \<Rightarrow> pyclass \<Rightarrow> exn + pyclass" where
  "real_cls_decorator add_connectors fieldname cls =
     (let err = (\<lambda>line m. Inl (new_exn (deco_entry ''real_cls_decorator'' False line) TypeError m)) in
      case cls_aenter cls of
        None \<Rightarrow> err 100 (''@koilable class '' @ cls_name cls @ '' must implement __aenter__'')
      | Some kenter \<Rightarrow>
          (case cls_aexit cls of
             None \<Rightarrow> err 102 (''@koilable class '' @ cls_name cls @ '' must implement __aexit__'')
           | Some kexit \<Rightarrow>
               if kenter \<noteq> CoroutineFunction
               then err 104 (cls_name cls @ ''.__aenter__ must be a coroutine function (async def)'')
               else if kexit \<noteq> CoroutineFunction
               then err 108 (cls_name cls @ ''.__aexit__ must be a coroutine function (async def)'')
               else
                 let ms = (cls_methods cls)(''__enter__'' \<mapsto> KoiledEnter fieldname,
                            ''__exit__'' \<mapsto> KoiledExit fieldname);
                     ms' = (if add_connectors
                            then ms(''aexit'' \<mapsto> ForwardAexit, ''aenter'' \<mapsto> ForwardAenter,
                                    ''exit'' \<mapsto> KoiledParamExit fieldname, ''enter'' \<mapsto> KoiledEnter fieldname)
                            else ms)
                 in Inr (cls\<lparr>cls_koilable := True, cls_methods := ms'\<rparr>)))"

definition koilable :: "koilable_form \<Rightarrow> bool \<Rightarrow> string \<Rightarrow> pyclass \<Rightarrow> exn + pyclass" where
  "koilable form add_connectors fieldname cls =
     (case form of
        LegacyForm name \<Rightarrow> real_cls_decorator add_connectors name cls
      | BareForm \<Rightarrow> real_cls_decorator add_connectors fieldname cls
      | FactoryForm \<Rightarrow> real_cls_decorator add_connectors fieldname cls)"

subsection \<open>koilable: entering and leaving\<close>

text \<open>
  An instance: its coroutine methods, and the attribute \<open>fieldname\<close> (\<open>None\<close> if it is not set
  or \<open>None\<close>).
\<close>

record koilobj =
  ko_aenter :: target
  ko_aexit :: target
  ko_koil :: "nat option"

text \<open>\<open>koil.__exit__(None, None, None)\<close> on the way out with \<open>r\<close>: what it raises replaces \<open>r\<close>.\<close>

definition exit_then ::
    "tb_entry \<Rightarrow> nat \<Rightarrow> time option \<Rightarrow> exn + pyval \<Rightarrow> caller \<Rightarrow> world \<Rightarrow> ((exn + pyval) \<times> caller \<times> world) option" where
  "exit_then t k d r c w =
     (case koil_exit k d c w of
        None \<Rightarrow> None
      | Some (Inl x, c', w') \<Rightarrow> Some (Inl (unwind t x), c', w')
      | Some (Inr _, c', w') \<Rightarrow> Some (r, c', w'))"

text \<open>\<open>unkoil(self.__aenter__)\<close> with the frame of the caller on what it raises.\<close>

definition unkoil_at ::
    "tb_entry \<Rightarrow> target \<Rightarrow> caller \<Rightarrow> world \<Rightarrow> wevent list \<Rightarrow>
     ((exn + pyval) \<times> caller \<times> world \<times> wevent list) option" where
  "unkoil_at t coro c w evs =
     (case unkoil coro c w evs of
        None \<Rightarrow> None
      | Some (Inl e, rest) \<Rightarrow> Some (Inl (unwind t e), rest)
      | Some (Inr v, rest) \<Rightarrow> Some (Inr v, rest))"

definition koiled_enter ::
    "time option \<Rightarrow> koilobj \<Rightarrow> caller \<Rightarrow> world \<Rightarrow> wevent list \<Rightarrow>
     ((exn + pyval) \<times> koilobj \<times> caller \<times> world \<times> wevent list) option" where
  "koiled_enter d self c w evs =
     (case ambient_koil c of
        Some _ \<Rightarrow>
          (case unkoil_at (deco_entry ''koiled_enter'' True 118) (ko_aenter self) c w evs of
             None \<Rightarrow> None
           | Some (r, c', w', evs') \<Rightarrow> Some (r, self, c', w', evs'))
      | None \<Rightarrow>
          let (k, w0) = (case ko_koil self of None \<Rightarrow> koil_default w | Some k \<Rightarrow> (k, w));
              self' = self\<lparr>ko_koil := Some k\<rparr>
          in case koil_enter k c w0 of
            (Inl e, c1, w1) \<Rightarrow> Some (Inl (unwind (deco_entry ''koiled_enter'' True 124) e), self', c1, w1, evs)
          | (Inr _, c1, w1) \<Rightarrow>
              (case unkoil_at (deco_entry ''koiled_enter'' True 126) (ko_aenter self) c1 w1 evs of
                 None \<Rightarrow> None
               | Some (Inr v, c2, w2, evs2) \<Rightarrow> Some (Inr v, self', c2, w2, evs2)
               | Some (Inl e, c2, w2, evs2) \<Rightarrow>
                   (case exit_then (deco_entry ''koiled_enter'' True 130) k d (Inl e) c2 w2 of
                      None \<Rightarrow> None
                    | Some (r, c3, w3) \<Rightarrow> Some (r, self', c3, w3, evs2))))"

definition koiled_exit ::
    "time option \<Rightarrow> koilobj \<Rightarrow> caller \<Rightarrow> world \<Rightarrow> wevent list \<Rightarrow>
     ((exn + pyval) \<times> caller \<times> world \<times> wevent list) option" where
  "koiled_exit d self c w evs =
     (case unkoil_at (deco_entry ''koiled_exit'' True 140) (ko_aexit self) c w evs of
        None \<Rightarrow> None
      | Some (Inl e, c1, w1, evs1) \<Rightarrow> Some (Inl e, c1, w1, evs1)
      | Some (Inr _, c1, w1, evs1) \<Rightarrow>
          (case ko_koil self of
             None \<Rightarrow> Some (Inr PyNone, c1, w1, evs1)
           | Some k \<Rightarrow>
               (case exit_then (deco_entry ''koiled_exit'' True 143) k d (Inr PyNone) c1 w1 of
                  None \<Rightarrow> None
                | Some (r, c2, w2) \<Rightarrow> Some (r, c2, w2, evs1))))"

text \<open>The connector \<open>exit\<close>; \<open>enter\<close> is \<open>koiled_enter\<close> itself.\<close>

definition koiled_param_exit ::
    "time option \<Rightarrow> koilobj \<Rightarrow> caller \<Rightarrow> world \<Rightarrow> wevent list \<Rightarrow>
     ((exn + pyval) \<times> caller \<times> world \<times> wevent list) option" where
  "koiled_param_exit d self c w evs =
     map_option (\<lambda>(r, rest).
         (case r of Inl e \<Rightarrow> Inl (unwind (deco_entry ''koiled_param_exit'' False 146) e) | Inr _ \<Rightarrow> Inr PyNone, rest))
       (koiled_exit d self c w evs)"

subsection \<open>koiled\<close>









subsection \<open>koiled\_cm\<close>

record koiled_cm_obj =
  cm_aenter :: target
  cm_aexit :: target
  cm_koil :: "nat option"
  cm_own_koil :: "nat option"

definition koiled_cm :: "target \<Rightarrow> target \<Rightarrow> nat option \<Rightarrow> koiled_cm_obj" where
  "koiled_cm aenter aexit koil =
     \<lparr>cm_aenter = aenter, cm_aexit = aexit, cm_koil = koil, cm_own_koil = None\<rparr>"

text \<open>\<open>_own_koil.__exit__(None, None, None); _own_koil = None\<close>, if there is an own koil.\<close>

definition cm_release ::
    "int \<Rightarrow> string \<Rightarrow> time option \<Rightarrow> exn + pyval \<Rightarrow> koiled_cm_obj \<Rightarrow> caller \<Rightarrow> world \<Rightarrow>
     ((exn + pyval) \<times> koiled_cm_obj \<times> caller \<times> world) option" where
  "cm_release line fn d r self c w =
     (case cm_own_koil self of
        None \<Rightarrow> Some (r, self, c, w)
      | Some k \<Rightarrow>
          (case koil_exit k d c w of
             None \<Rightarrow> None
           | Some (Inl x, c', w') \<Rightarrow> Some (Inl (unwind (deco_entry fn True line) x), self, c', w')
           | Some (Inr _, c', w') \<Rightarrow> Some (r, self\<lparr>cm_own_koil := None\<rparr>, c', w')))"

definition cm_enter ::
    "time option \<Rightarrow> koiled_cm_obj \<Rightarrow> caller \<Rightarrow> world \<Rightarrow> wevent list \<Rightarrow>
     ((exn + pyval) \<times> koiled_cm_obj \<times> caller \<times> world \<times> wevent list) option" where
  "cm_enter d self c w evs =
     (let (started, self1, c1, w1) =
        (case ambient_koil c of
           Some _ \<Rightarrow> (Inr PyNone, self, c, w)
         | None \<Rightarrow>
             let (k, w0) = (case cm_koil self of Some k \<Rightarrow> (k, w) | None \<Rightarrow> koil_default w)
             in case koil_enter k c w0 of
               (Inl e, c', w') \<Rightarrow> (Inl (unwind (deco_entry ''__enter__'' True 305) e), self\<lparr>cm_own_koil := Some k\<rparr>, c', w')
             | (Inr _, c', w') \<Rightarrow> (Inr PyNone, self\<lparr>cm_own_koil := Some k\<rparr>, c', w'))
      in case started of
        Inl e \<Rightarrow> Some (Inl e, self1, c1, w1, evs)
      | Inr _ \<Rightarrow>
          (case unkoil_at (deco_entry ''__enter__'' True 307) (cm_aenter self1) c1 w1 evs of
             None \<Rightarrow> None
           | Some (Inr v, c2, w2, evs2) \<Rightarrow> Some (Inr v, self1, c2, w2, evs2)
           | Some (Inl e, c2, w2, evs2) \<Rightarrow>
               (case cm_release 312 ''__enter__'' d (Inl e) self1 c2 w2 of
                  None \<Rightarrow> None
                | Some (r, self2, c3, w3) \<Rightarrow> Some (r, self2, c3, w3, evs2))))"

definition cm_exit ::
    "time option \<Rightarrow> koiled_cm_obj \<Rightarrow> caller \<Rightarrow> world \<Rightarrow> wevent list \<Rightarrow>
     ((exn + pyval) \<times> koiled_cm_obj \<times> caller \<times> world \<times> wevent list) option" where
  "cm_exit d self c w evs =
     (case unkoil_at (deco_entry ''__exit__'' True 325) (cm_aexit self) c w evs of
        None \<Rightarrow> None
      | Some (r, c1, w1, evs1) \<Rightarrow>
          (case cm_release 328 ''__exit__'' d r self c1 w1 of
             None \<Rightarrow> None
           | Some (r2, self2, c2, w2) \<Rightarrow> Some (r2, self2, c2, w2, evs1)))"

subsection \<open>What a bridge call leaves alone\<close>

interpretation koils: world_invariant "\<lambda>w. settings w = s" for s
  by unfold_locales simp_all

lemma submit_settings: "run_async_sharing_context l sg timeout call c w = (r, w') \<Longrightarrow> settings w' = settings w"
  by (auto simp: run_async_sharing_context_def submit_sharing_def event_init_def Let_def
      call_soon_threadsafe_def settings_def upd_loop_def split: if_splits)

lemma bridge_submit_settings: "bridge_submit fn ls coro timeout c w = (r, w') \<Longrightarrow> settings w' = settings w"
  by (auto simp: bridge_submit_def dest: submit_settings split: prod.splits option.splits sum.splits)

lemma bridge_call_settings:
  assumes "bridge_call fn ls n coro timeout c w evs = Some (r, c', w', evs')"
  shows "settings w' = settings w"
proof -
  obtain k w1 where sub: "bridge_submit fn ls coro timeout c w = (k, w1)" by fastforce
  show ?thesis
  proof (cases k)
    case (Inr kf)
    with assms sub obtain r0 kf' where "kf_result None None kf c w1 evs = Some (r0, kf', c', w', evs')"
      by (auto simp: bridge_call_def bridge_result_def Let_def split: option.splits prod.splits sum.splits)
    from koils.kf_result_good [OF this] bridge_submit_settings [OF sub] show ?thesis by simp
  qed (use assms sub bridge_submit_settings [OF sub] in \<open>auto simp: bridge_call_def\<close>)
qed

lemma kf_result_InlD: "kf_result timeout p kf c w evs = Some (Inl x, kf', c', w', evs') \<Longrightarrow> c' = c"
  by (auto simp: kf_result_def Let_def result_raises_def
      split: if_splits option.splits prod.splits sum.splits waited.splits)

lemma bridge_call_InlD: "bridge_call fn ls n coro timeout c w evs = Some (Inl x, c', w', evs') \<Longrightarrow> c' = c"
  by (auto simp: bridge_call_def bridge_result_def Let_def dest: kf_result_InlD
      split: option.splits prod.splits sum.splits)

lemma unkoil_at_settings: "unkoil_at t coro c w evs = Some (r, c', w', evs') \<Longrightarrow> settings w' = settings w"
  by (auto simp: unkoil_at_def unkoil_def dest: bridge_call_settings split: option.splits sum.splits)

lemma unkoil_at_InlD: "unkoil_at t coro c w evs = Some (Inl x, c', w', evs') \<Longrightarrow> c' = c"
  by (auto simp: unkoil_at_def unkoil_def dest: bridge_call_InlD split: option.splits sum.splits)

lemma koils_of_settings: "settings w' = settings w \<Longrightarrow> rt_koils w' = rt_koils w"
  by (simp add: settings_def)

subsection \<open>Releasing a loop\<close>

text \<open>A loop that will not run on: it is closed, or the request to stop is in its queue.\<close>

definition released :: "nat \<Rightarrow> world \<Rightarrow> bool" where
  "released l w \<longleftrightarrow> l_closed (rt_loops w l) \<or> CbStop \<in> set (l_ready (rt_loops w l))"

text \<open>A koil that owns the loop \<open>l\<close> and its thread.\<close>

definition owns :: "nat \<Rightarrow> nat \<Rightarrow> world \<Rightarrow> bool" where
  "owns k l w \<longleftrightarrow> k_loop (rt_koils w k) = Some l \<and> k_loop_thread (rt_koils w k) = Some l"

text \<open>What is left after a successful exit of the koil \<open>k\<close>: it is detached, and nothing is ambient.\<close>

definition detached :: "nat \<Rightarrow> caller \<Rightarrow> world \<Rightarrow> bool" where
  "detached k c w \<longleftrightarrow> k_loop (rt_koils w k) = None \<and> ambient_koil c = None \<and> ambient_loop c = None"

lemma koil_exit_releases:
  assumes "owns k l w" and "koil_exit k d c w = Some (r, c', w')"
  shows "released l w' \<and>
    (case r of Inr _ \<Rightarrow> detached k c' w' | Inl x \<Rightarrow> ecls x = RuntimeError \<and> l_closed (rt_loops w' l))"
proof (cases "l_closed (rt_loops w l)")
  case True
  with assms show ?thesis
    by (auto simp: koil_exit_def owns_def call_soon_threadsafe_def released_def)
next
  case False
  with assms obtain t alive where "join_loop_thread (rt_koils w k) d = Some (t, alive)"
    by (auto simp: koil_exit_def owns_def call_soon_threadsafe_def split: option.splits)
  with koil_exit_with_loop [of w k l l d t alive c] assms False show ?thesis
    by (auto simp: owns_def released_def detached_def Let_def)
qed

lemma koil_default_simps:
  "rt_nloops (snd (koil_default w)) = rt_nloops w" "rt_loops (snd (koil_default w)) = rt_loops w"
  "settings (snd (koil_default w)) =
     ((rt_koils w)(rt_nkoils w := rt_koils (snd (koil_default w)) (rt_nkoils w)), rt_environ w, rt_rewrite_tracebacks w)"
  by (simp_all add: koil_default_def koil_init_def Let_def settings_def)

lemma koil_enter_owns:
  assumes "ambient_koil c = None" and "c_running c = None" and "koil_enter k c w = (r, c', w')"
  shows "r = Inr k \<and> owns k (rt_nloops w) w' \<and> ambient_koil c' = Some k \<and> ambient_loop c' = Some (rt_nloops w) \<and>
    c_running c' = None"
  using assms koil_enter_starts [of c w k] by (auto simp: owns_def)

lemma owns_settings: "settings w' = settings w \<Longrightarrow> owns k l w' = owns k l w"
  by (auto simp: owns_def dest: koils_of_settings)

subsection \<open>Properties\<close>

lemma exit_then_releases:
  assumes "owns k l w" and "exit_then t k d r c w = Some (r', c', w')"
  shows "released l w' \<and>
    (r' = r \<and> detached k c' w' \<or> (\<exists>x. r' = Inl x \<and> ecls x = RuntimeError \<and> l_closed (rt_loops w' l)))"
proof -
  obtain q c2 w2 where q: "koil_exit k d c w = Some (q, c2, w2)" using assms(2)
    by (cases "koil_exit k d c w") (auto simp: exit_then_def)
  from koil_exit_releases [OF assms(1) q] q assms(2) show ?thesis
    by (cases q) (auto simp: exit_then_def)
qed

text \<open>
  C15: a \<open>with\<close> statement on a \<open>koilable\<close> object outside of any koil whose \<open>__aenter__\<close> fails does
  not leak the koil that was started for it. Whatever happened on the loop, the loop is closed
  or told to stop; the koil is detached and the ambient variables are cleared, unless the
  loop had died already, in which case the exit itself raises.
\<close>

theorem koilable_enter_no_leak:
  assumes "ambient_koil c = None" and "c_running c = None"
    and "koiled_enter d self c w evs = Some (Inl x, self', c', w', evs')"
  shows "released (rt_nloops w) w' \<and>
    (\<exists>k. ko_koil self' = Some k \<and>
      (detached k c' w' \<or> ecls x = RuntimeError \<and> l_closed (rt_loops w' (rt_nloops w))))"
proof -
  obtain k w0 where k: "(case ko_koil self of None \<Rightarrow> koil_default w | Some k \<Rightarrow> (k, w)) = (k, w0)" by fastforce
  then have nl: "rt_nloops w0 = rt_nloops w"
    using koil_default_simps(1) [of w] by (auto split: option.splits)
  obtain r c1 w1 where ent: "koil_enter k c w0 = (r, c1, w1)" using prod_cases3 by blast
  from koil_enter_owns [OF assms(1,2) ent] have r: "r = Inr k" and own: "owns k (rt_nloops w) w1"
    using nl by simp_all
  let ?out = "unkoil_at (deco_entry ''koiled_enter'' True 126) (ko_aenter self) c1 w1 evs"
  obtain r2 c2 w2 evs2 where out: "?out = Some (r2, c2, w2, evs2)"
    using assms k ent r by (cases ?out) (auto simp: koiled_enter_def Let_def)
  obtain e where e: "r2 = Inl e"
    using assms k ent r out by (cases r2) (auto simp: koiled_enter_def Let_def)
  have "owns k (rt_nloops w) w2" using own unkoil_at_settings [OF out] owns_settings by blast
  moreover have "exit_then (deco_entry ''koiled_enter'' True 130) k d (Inl e) c2 w2 = Some (Inl x, c', w')"
    and "ko_koil self' = Some k"
    using assms k ent r out e by (auto simp: koiled_enter_def Let_def split: option.splits)
  ultimately show ?thesis using exit_then_releases by blast
qed

text \<open>
  C31: the exit of \<open>koiled_cm\<close> releases the koil it started, whether \<open>__aexit__\<close> returns, whose
  value then is the value of \<open>__exit__\<close>, or raises, and then that exception is passed on.
\<close>

theorem koiled_cm_exit_releases:
  assumes "cm_own_koil self = Some k" and "owns k l w" and "cm_exit d self c w evs = Some (r, self', c', w', evs')"
  shows "released l w' \<and>
    (cm_own_koil self' = None \<and> detached k c' w' \<and>
       (\<exists>c1 w1. unkoil_at (deco_entry ''__exit__'' True 325) (cm_aexit self) c w evs = Some (r, c1, w1, evs')) \<or>
     (\<exists>x. r = Inl x \<and> ecls x = RuntimeError) \<and> l_closed (rt_loops w' l))"
proof -
  let ?out = "unkoil_at (deco_entry ''__exit__'' True 325) (cm_aexit self) c w evs"
  obtain r1 c1 w1 evs1 where out: "?out = Some (r1, c1, w1, evs1)"
    using assms(3) by (cases ?out) (auto simp: cm_exit_def)
  have own: "owns k l w1" using assms(2) unkoil_at_settings [OF out] owns_settings by blast
  obtain q c2 w2 where q: "koil_exit k d c1 w1 = Some (q, c2, w2)"
    using assms(1,3) out by (cases "koil_exit k d c1 w1") (auto simp: cm_exit_def cm_release_def)
  from koil_exit_releases [OF own q] q out assms(1,3) show ?thesis
    by (cases q) (auto simp: cm_exit_def cm_release_def)
qed

text \<open>
  C32: the \<open>__exit__\<close> that \<open>koilable\<close> generates is weaker: when \<open>__aexit__\<close> raises, the koil that was
  started for the object is not left. It keeps its loop and its thread, and it stays the ambient
  koil of the caller.
\<close>

theorem koilable_exit_leak:
  assumes "unkoil (ko_aexit self) c w evs = Some (Inl e, c1, w1, evs1)" and "ko_koil self = Some k" and "owns k l w"
  shows "\<exists>x w'. koiled_exit d self c w evs = Some (Inl x, c, w', evs1) \<and> ecls x = ecls e \<and> owns k l w'"
proof -
  have out: "unkoil_at (deco_entry ''koiled_exit'' True 140) (ko_aexit self) c w evs =
      Some (Inl (unwind (deco_entry ''koiled_exit'' True 140) e), c1, w1, evs1)"
    using assms(1) by (simp add: unkoil_at_def)
  from unkoil_at_InlD [OF out] unkoil_at_settings [OF out] out show ?thesis
    using assms(3) owns_settings [of w1 w k l] by (simp add: koiled_exit_def)
qed


subsection \<open>Witnesses\<close>

definition fresh_world :: "nat \<times> caller \<times> world" where
  "fresh_world = (case koil_default init_world of (k, w) \<Rightarrow> (k, snd (koil_enter k init_caller w)))"

abbreviation fw_koil :: nat where "fw_koil \<equiv> fst fresh_world"
abbreviation fw_caller :: caller where "fw_caller \<equiv> fst (snd fresh_world)"
abbreviation fw_world :: world where "fw_world \<equiv> snd (snd fresh_world)"

definition some_error :: exn where
  "some_error = new_exn (entry ''app'' ''connect'' False 3) ValueError ''refused''"

lemma init_caller_simps [simp]:
  "ambient_koil init_caller = None" "ambient_loop init_caller = None" "ambient_event init_caller = None"
  "c_running init_caller = None"
  by (simp_all add: init_caller_def ambient_koil_def ambient_loop_def ambient_event_def ctx_get_def)

lemma fresh_world_enter: "koil_enter fw_koil init_caller (snd (koil_default init_world)) = (Inr fw_koil, fw_caller, fw_world)"
  using koil_enter_starts [of init_caller "snd (koil_default init_world)" fw_koil]
  by (simp add: fresh_world_def split: prod.splits)

lemma fresh_world_owns: "owns fw_koil (rt_nloops init_world) fw_world"
  using koil_enter_owns [OF _ _ fresh_world_enter] koil_default_simps(1) [of init_world] by simp

lemma fresh_world_plain: "plain_call sample_coro (rt_nloops init_world) fw_caller fw_world"
  by (simp add: fresh_world_def koil_enter_starts plain_call_def sample_coro_def get_koiled_loop_Inr
      koil_default_def koil_init_def get_threaded_loop_def Let_def upd_koil_def)

lemma fresh_world_rewrites: "should_rewrite fw_caller fw_world"
  by (simp add: fresh_world_def koil_enter_starts should_rewrite_def koil_default_def koil_init_def
      get_threaded_loop_def Let_def py_strip_def py_lower_def upd_koil_def)

lemma fresh_world_fails:
  "\<exists>x w'. unkoil sample_coro fw_caller fw_world
      (undisturbed (rt_nloops init_world) (w_nraces fw_world) (Inl some_error) [] @ []) =
      Some (Inl x, fw_caller, w', []) \<and> ecls x = ValueError"
  using plain_result_raises [OF fresh_world_plain _ _ fresh_world_rewrites, of some_error "''unkoil''" "(392, 393, 395)" 400 "[]" "[]"]
  by (auto simp: unkoil_def some_error_def catches_def koil_simps user_entries_def visible_def is_hidden_def
      entry_def hidden_modules_def)

lemma fresh_world_exit: 
  assumes "settings w = settings fw_world"
  shows "\<exists>r c' w'. koil_exit fw_koil d c w = Some (r, c', w')"
proof -
  have "k_cancel_timeout (rt_koils fw_world fw_koil) = Some 2"
    by (simp add: fresh_world_def koil_enter_starts koil_default_def koil_init_def get_threaded_loop_def Let_def)
  then have "k_cancel_timeout (rt_koils w fw_koil) = Some 2" using koils_of_settings [OF assms] by simp
  from join_loop_thread_total [OF this, of d] show ?thesis
    by (auto simp: koil_exit_def split: option.splits sum.splits)
qed

definition sample_obj :: koilobj where
  "sample_obj = \<lparr>ko_aenter = sample_coro, ko_aexit = sample_coro, ko_koil = None\<rparr>"

theorem koilable_enter_no_leak_witness:
  "\<exists>x self' c' w'. koiled_enter (Some 1) sample_obj init_caller init_world
      (undisturbed (rt_nloops init_world) (w_nraces fw_world) (Inl some_error) [] @ []) =
      Some (Inl x, self', c', w', []) \<and> released (rt_nloops init_world) w'"
proof -
  let ?evs = "undisturbed (rt_nloops init_world) (w_nraces fw_world) (Inl some_error) [] @ []"
  let ?at = "deco_entry ''koiled_enter'' True 126"
  obtain x w2 where "unkoil_at ?at sample_coro fw_caller fw_world ?evs = Some (Inl x, fw_caller, w2, [])"
    using fresh_world_fails by (force simp: unkoil_at_def)
  note un = this and same = unkoil_at_settings [OF this]
  obtain x' c' w' where "exit_then (deco_entry ''koiled_enter'' True 130) fw_koil (Some 1) (Inl x) fw_caller w2 = Some (Inl x', c', w')"
    using fresh_world_exit [OF same, of "Some 1" fw_caller] by (force simp: exit_then_def split: sum.splits)
  moreover obtain w0 where "koil_default init_world = (fw_koil, w0)"
    by (cases "koil_default init_world") (simp add: fresh_world_def)
  moreover from this have "koil_enter fw_koil init_caller w0 = (Inr fw_koil, fw_caller, fw_world)"
    using fresh_world_enter by simp
  moreover obtain c1 w1 where "snd fresh_world = (c1, w1)" by fastforce
  ultimately have "koiled_enter (Some 1) sample_obj init_caller init_world ?evs =
      Some (Inl x', sample_obj\<lparr>ko_koil := Some fw_koil\<rparr>, c', w', [])"
    using un by (simp add: koiled_enter_def sample_obj_def Let_def)
  with koilable_enter_no_leak [OF _ _ this] show ?thesis by auto
qed

definition sample_cm :: koiled_cm_obj where
  "sample_cm = (koiled_cm sample_coro sample_coro None)\<lparr>cm_own_koil := Some fw_koil\<rparr>"

theorem koiled_cm_exit_releases_witness:
  "\<exists>r self' c' w'. cm_exit None sample_cm fw_caller fw_world
      (undisturbed (rt_nloops init_world) (w_nraces fw_world) (Inl some_error) [] @ []) =
      Some (r, self', c', w', []) \<and> released (rt_nloops init_world) w'"
proof -
  let ?evs = "undisturbed (rt_nloops init_world) (w_nraces fw_world) (Inl some_error) [] @ []"
  obtain x w2 where "unkoil_at (deco_entry ''__exit__'' True 325) sample_coro fw_caller fw_world ?evs = Some (Inl x, fw_caller, w2, [])"
    using fresh_world_fails by (force simp: unkoil_at_def)
  note un = this and same = unkoil_at_settings [OF this]
  have cm: "cm_own_koil sample_cm = Some fw_koil" "cm_aexit sample_cm = sample_coro"
    by (simp_all add: sample_cm_def koiled_cm_def)
  obtain r self' c' w' where "cm_exit None sample_cm fw_caller fw_world ?evs = Some (r, self', c', w', [])"
    using fresh_world_exit [OF same, of None fw_caller] un cm
    by (force simp: cm_exit_def cm_release_def split: sum.splits)
  with koiled_cm_exit_releases [OF cm(1) fresh_world_owns this] show ?thesis by blast
qed

theorem koilable_exit_leak_witness:
  "\<exists>x w'. koiled_exit (Some 0) (sample_obj\<lparr>ko_koil := Some fw_koil\<rparr>) fw_caller fw_world
      (undisturbed (rt_nloops init_world) (w_nraces fw_world) (Inl some_error) [] @ []) =
      Some (Inl x, fw_caller, w', []) \<and> ecls x = ValueError \<and> owns fw_koil (rt_nloops init_world) w'"
proof -
  let ?self = "sample_obj\<lparr>ko_koil := Some fw_koil\<rparr>"
  have self: "ko_aexit ?self = sample_coro" "ko_koil ?self = Some fw_koil" by (simp_all add: sample_obj_def)
  obtain e w1 where "unkoil (ko_aexit ?self) fw_caller fw_world
      (undisturbed (rt_nloops init_world) (w_nraces fw_world) (Inl some_error) [] @ []) = Some (Inl e, fw_caller, w1, [])"
    "ecls e = ValueError"
    unfolding self(1) using fresh_world_fails by blast
  with koilable_exit_leak [OF this(1) self(2) fresh_world_owns, of "Some 0"] show ?thesis by auto
qed


end
