(* ===== verification/Koil_Composition.thy ===== *)
theory Koil_Composition
  imports Koil_Decorators
begin

section \<open>Compositions of models (koil/composition/base.py)\<close>

text \<open>
  \<open>KoiledModel\<close> and \<open>Composition\<close>. The fields of a model are its public ones, in the order of
  their declaration, as iterating over a pydantic model gives them. What the \<open>__aenter__\<close> and
  \<open>__aexit__\<close> of a child raise, if anything, is part of the field; the calls that completed or
  raised are recorded in the order in which they were made.
\<close>

subsection \<open>KoiledModel\<close>

text \<open>The class that the decorator is applied to: its methods are stubs but for the two coroutines.\<close>

definition koiled_model_stub :: pyclass where
  "koiled_model_stub =
     \<lparr>cls_name = ''KoiledModel'', cls_aenter = Some CoroutineFunction, cls_aexit = Some CoroutineFunction,
      cls_koilable = False,
      cls_methods = map_of (map (\<lambda>m. (m, OwnMethod 0))
        [''__enter__'', ''enter'', ''aenter'', ''exit'', ''aexit'', ''__exit__'', ''__str__''])\<rparr>"

definition KoiledModel :: "exn + pyclass" where
  "KoiledModel = koilable FactoryForm True ''__koil'' koiled_model_stub"

text \<open>\<open>KoiledModel.__aenter__\<close> returns the object and \<open>__aexit__\<close> nothing; neither has an effect.\<close>

datatype model_call = AEnter string | AExit string

definition model_aenter :: "exn option \<times> model_call list" where
  "model_aenter = (None, [])"

definition model_aexit :: "exn option \<times> model_call list" where
  "model_aexit = (None, [])"

subsection \<open>Composition\<close>

text \<open>
  The value of a field: a \<open>Koil\<close>, or another object, which may have the two methods; a method
  that is there raises an exception or returns.
\<close>

datatype field_value =
    KoilField
  | ChildField (has_aenter: "exn option option") (has_aexit: "exn option option")

type_synonym model_fields = "(string \<times> field_value) list"

fun enter_fields :: "model_fields \<Rightarrow> exn option \<times> model_call list" where
  "enter_fields [] = (None, [])"
| "enter_fields ((n, KoilField) # fs) = enter_fields fs"
| "enter_fields ((n, ChildField None ex) # fs) = enter_fields fs"
| "enter_fields ((n, ChildField (Some (Some e)) ex) # fs) =
     (Some (unwind (entry ''koil.composition.base'' ''__aenter__'' False 64) e), [AEnter n])"
| "enter_fields ((n, ChildField (Some None) ex) # fs) =
     (case enter_fields fs of (r, calls) \<Rightarrow> (r, AEnter n # calls))"

definition composition_aenter :: "model_fields \<Rightarrow> exn option \<times> model_call list" where
  "composition_aenter fs =
     (case model_aenter of
        (Some e, calls) \<Rightarrow> (Some e, calls)
      | (None, calls) \<Rightarrow> (case enter_fields fs of (r, calls2) \<Rightarrow> (r, calls @ calls2)))"

fun exit_fields :: "model_fields \<Rightarrow> exn option \<times> model_call list" where
  "exit_fields [] = (None, [])"
| "exit_fields ((n, KoilField) # fs) = exit_fields fs"
| "exit_fields ((n, ChildField en None) # fs) = exit_fields fs"
| "exit_fields ((n, ChildField en (Some (Some e))) # fs) =
     (Some (unwind (entry ''koil.composition.base'' ''__aexit__'' False 78) e), [AExit n])"
| "exit_fields ((n, ChildField en (Some None)) # fs) =
     (case exit_fields fs of (r, calls) \<Rightarrow> (r, AExit n # calls))"

definition composition_aexit :: "model_fields \<Rightarrow> exn option \<times> model_call list" where
  "composition_aexit fs =
     (case model_aexit of
        (Some e, calls) \<Rightarrow> (Some e, calls)
      | (None, calls) \<Rightarrow> (case exit_fields fs of (r, calls2) \<Rightarrow> (r, calls @ calls2)))"

text \<open>
  \<open>async with composition: body\<close>: what leaves the block and the calls on the children. The exit
  returns \<open>None\<close>, so an exception of the body is never suppressed; one of the exit replaces it.
\<close>

definition composition_block :: "model_fields \<Rightarrow> exn option \<Rightarrow> exn option \<times> model_call list" where
  "composition_block fs body =
     (case composition_aenter fs of
        (Some e, calls) \<Rightarrow> (Some e, calls)
      | (None, calls) \<Rightarrow>
          (case composition_aexit fs of
             (Some e, calls2) \<Rightarrow> (Some e, calls @ calls2)
           | (None, calls2) \<Rightarrow> (body, calls @ calls2)))"

subsection \<open>Which children are called\<close>

definition enterable :: "string \<times> field_value \<Rightarrow> bool" where
  "enterable f = (case snd f of KoilField \<Rightarrow> False | ChildField en ex \<Rightarrow> en \<noteq> None)"

definition exitable :: "string \<times> field_value \<Rightarrow> bool" where
  "exitable f = (case snd f of KoilField \<Rightarrow> False | ChildField en ex \<Rightarrow> ex \<noteq> None)"

definition enter_fails :: "string \<times> field_value \<Rightarrow> bool" where
  "enter_fails f = (\<exists>e ex. snd f = ChildField (Some (Some e)) ex)"

definition exit_fails :: "string \<times> field_value \<Rightarrow> bool" where
  "exit_fails f = (\<exists>en e. snd f = ChildField en (Some (Some e)))"

lemma enter_fields_eq:
  "snd (enter_fields fs) = map (AEnter \<circ> fst) (filter enterable (takeWhile (Not \<circ> enter_fails) fs)) @
     (case find enter_fails fs of None \<Rightarrow> [] | Some f \<Rightarrow> [AEnter (fst f)])"
  "fst (enter_fields fs) = None \<longleftrightarrow> list_all (Not \<circ> enter_fails) fs"
  by (induction fs rule: enter_fields.induct)
    (auto simp: enterable_def enter_fails_def split: prod.splits option.splits)

lemma exit_fields_eq:
  "snd (exit_fields fs) = map (AExit \<circ> fst) (filter exitable (takeWhile (Not \<circ> exit_fails) fs)) @
     (case find exit_fails fs of None \<Rightarrow> [] | Some f \<Rightarrow> [AExit (fst f)])"
  "fst (exit_fields fs) = None \<longleftrightarrow> list_all (Not \<circ> exit_fails) fs"
  by (induction fs rule: exit_fields.induct)
    (auto simp: exitable_def exit_fails_def split: prod.splits option.splits)

lemma aenter_eq: "composition_aenter fs = enter_fields fs"
  by (simp add: composition_aenter_def model_aenter_def)

lemma aexit_eq: "composition_aexit fs = exit_fields fs"
  by (simp add: composition_aexit_def model_aexit_def)

lemma no_failure_simps:
  "list_all (Not \<circ> P) fs \<Longrightarrow> takeWhile (Not \<circ> P) fs = fs" "list_all (Not \<circ> P) fs \<Longrightarrow> find P fs = None"
  by (induction fs) auto

lemma first_failure_simps:
  assumes "P f" and "list_all (Not \<circ> P) fs"
  shows "takeWhile (Not \<circ> P) (fs @ f # gs) = fs" "find P (fs @ f # gs) = Some f"
    "\<not> list_all (Not \<circ> P) (fs @ f # gs)"
  using assms by (induction fs) auto

subsection \<open>Properties\<close>

text \<open>
  C34: a block over a composition whose children work enters every child that can be entered
  exactly once, in the order of the fields, then leaves every child that can be left exactly
  once, again in the order of the fields, not in reverse; koils among the fields are left
  alone, and the body's exception, if any, leaves the block.
\<close>

theorem composition_block_complete:
  assumes "list_all (Not \<circ> enter_fails) fs" and "list_all (Not \<circ> exit_fails) fs"
  shows "composition_block fs body =
    (body, map (AEnter \<circ> fst) (filter enterable fs) @ map (AExit \<circ> fst) (filter exitable fs))"
proof -
  have "enter_fields fs = (None, map (AEnter \<circ> fst) (filter enterable fs))"
    using assms(1) enter_fields_eq [of fs] by (simp add: prod_eq_iff no_failure_simps)
  moreover have "exit_fields fs = (None, map (AExit \<circ> fst) (filter exitable fs))"
    using assms(2) exit_fields_eq [of fs] by (simp add: prod_eq_iff no_failure_simps)
  ultimately show ?thesis by (simp add: composition_block_def aenter_eq aexit_eq)
qed

text \<open>
  C35: failures in a composition. If a child fails to enter, the children before it stay entered:
  no \<open>__aexit__\<close> is called at all. If a child fails to exit, the children after it are not
  left.
\<close>

theorem composition_failure:
  assumes "list_all (Not \<circ> enter_fails) pre"
  shows "(enter_fails f \<longrightarrow> (\<exists>e. composition_block (pre @ f # post) body =
      (Some e, map (AEnter \<circ> fst) (filter enterable pre) @ [AEnter (fst f)]))) \<and>
    (list_all (Not \<circ> enter_fails) (f # post) \<and> list_all (Not \<circ> exit_fails) pre \<and> exit_fails f \<longrightarrow>
      (\<exists>e. composition_block (pre @ f # post) body =
        (Some e, map (AEnter \<circ> fst) (filter enterable (pre @ f # post)) @
          map (AExit \<circ> fst) (filter exitable pre) @ [AExit (fst f)])))"
proof (intro conjI impI)
  let ?fs = "pre @ f # post"
  assume f: "enter_fails f"
  with enter_fields_eq [of ?fs] first_failure_simps [OF f assms, of post]
  obtain e where "enter_fields ?fs = (Some e, map (AEnter \<circ> fst) (filter enterable pre) @ [AEnter (fst f)])"
    by (cases "enter_fields ?fs") auto
  then show "\<exists>e. composition_block ?fs body =
      (Some e, map (AEnter \<circ> fst) (filter enterable pre) @ [AEnter (fst f)])"
    by (simp add: composition_block_def aenter_eq)
next
  let ?fs = "pre @ f # post"
  assume "list_all (Not \<circ> enter_fails) (f # post) \<and> list_all (Not \<circ> exit_fails) pre \<and> exit_fails f"
  then have ok: "list_all (Not \<circ> enter_fails) ?fs" and f: "exit_fails f" "list_all (Not \<circ> exit_fails) pre"
    using assms by auto
  from ok have "enter_fields ?fs = (None, map (AEnter \<circ> fst) (filter enterable ?fs))"
    using enter_fields_eq [of ?fs] by (simp only: prod_eq_iff no_failure_simps) simp
  moreover from exit_fields_eq [of ?fs] first_failure_simps [OF f, of post]
  obtain e where "exit_fields ?fs = (Some e, map (AExit \<circ> fst) (filter exitable pre) @ [AExit (fst f)])"
    by (cases "exit_fields ?fs") auto
  ultimately show "\<exists>e. composition_block ?fs body =
        (Some e, map (AEnter \<circ> fst) (filter enterable ?fs) @
          map (AExit \<circ> fst) (filter exitable pre) @ [AExit (fst f)])"
    by (simp add: composition_block_def aenter_eq aexit_eq)
qed

subsection \<open>Witnesses\<close>

definition working :: "string \<Rightarrow> string \<times> field_value" where
  "working n = (n, ChildField (Some None) (Some None))"

definition broken :: "string \<Rightarrow> string \<times> field_value" where
  "broken n = (n, ChildField (Some (Some some_error)) (Some None))"

lemmas child_simps = working_def broken_def enter_fails_def exit_fails_def enterable_def exitable_def

theorem composition_block_complete_witness:
  "composition_block [working ''db'', (''koil'', KoilField), working ''web''] None =
     (None, [AEnter ''db'', AEnter ''web'', AExit ''db'', AExit ''web''])"
  using composition_block_complete [of "[working ''db'', (''koil'', KoilField), working ''web'']" None]
  by (simp add: child_simps)

theorem composition_failure_witness:
  "\<exists>e. composition_block [working ''db'', broken ''web''] None = (Some e, [AEnter ''db'', AEnter ''web''])"
  using composition_failure [of "[working ''db'']" "broken ''web''" "[]" None] by (simp add: child_simps)

lemma koiled_model_methods:
  "\<exists>cls. KoiledModel = Inr cls \<and> cls_koilable cls \<and>
     cls_methods cls ''__enter__'' = Some (KoiledEnter ''__koil'') \<and> cls_methods cls ''exit'' = Some (KoiledParamExit ''__koil'') \<and>
     cls_methods cls ''aenter'' = Some ForwardAenter \<and> cls_methods cls ''__str__'' = Some (OwnMethod 0)"
  by (simp add: KoiledModel_def koilable_def real_cls_decorator_def koiled_model_stub_def Let_def)

end
