(* ===== verification/Koil_Qt.thy ===== *)
theory Koil_Qt
  imports Koil_Composition
begin

section \<open>Qt (koil/qt.py)\<close>

text \<open>
  The futures and generators that a Qt slot resolves from the Qt thread and a coroutine
  awaits on the loop, the four wrappers between slots and coroutines, and the koil that is
  tied to a window. Qt itself is a parameter: what a slot does, and what emitting a signal
  raises, if anything. A callback that is handed to the loop with \<open>call_soon_threadsafe\<close> waits
  in \<open>posted\<close> until the loop turns.
\<close>

definition qt_entry :: "string \<Rightarrow> bool \<Rightarrow> int \<Rightarrow> tb_entry" where
  "qt_entry fn hide line = entry ''koil.qt'' fn hide line"

definition QtStopIteration :: exn_class where
  "QtStopIteration = UserError ''QtStopIteration'' ExceptionExn"

text \<open>What \<open>call_soon_threadsafe\<close> raises on a closed loop.\<close>

definition loop_closed_error :: "tb_entry \<Rightarrow> exn" where
  "loop_closed_error t =
     unwind t (new_exn (entry ''asyncio.base_events'' ''_check_closed'' False 0) RuntimeError ''Event loop is closed'')"

subsection \<open>QtFuture\<close>

datatype aio_state =
    AioPending
  | AioResult "ctx \<times> pyval"
  | AioExn exn
  | AioCancelled

definition aio_done :: "aio_state \<Rightarrow> bool" where
  "aio_done s = (s \<noteq> AioPending)"

text \<open>
  The two callbacks that run on the loop. \<open>set_exception\<close> of an asyncio future turns a
  \<open>StopIteration\<close> into a \<open>RuntimeError\<close>.
\<close>

definition aio_exception :: "exn \<Rightarrow> exn" where
  "aio_exception e =
     (if catches [StopIteration] e
      then Exn RuntimeError ''StopIteration interacts badly with generators and cannot be raised into a Future'' []
             (Some e) (Some e)
      else e)"

definition set_future_result :: "ctx \<times> pyval \<Rightarrow> aio_state \<Rightarrow> aio_state" where
  "set_future_result r fut = (if aio_done fut then fut else AioResult r)"

definition set_future_exception :: "exn \<Rightarrow> aio_state \<Rightarrow> aio_state" where
  "set_future_exception e fut = (if aio_done fut then fut else AioExn (aio_exception e))"

datatype qt_post = PostResult "ctx \<times> pyval" | PostExn exn

fun run_post :: "qt_post \<Rightarrow> aio_state \<Rightarrow> aio_state" where
  "run_post (PostResult r) fut = set_future_result r fut"
| "run_post (PostExn e) fut = set_future_exception e fut"

record qtfuture =
  qf_aiofuture :: aio_state
  qf_iscancelled :: bool
  qf_resolved :: bool
  qf_rejected :: bool
  qf_posted :: "qt_post list"

definition qtfuture_init :: qtfuture where
  "qtfuture_init =
     \<lparr>qf_aiofuture = AioPending, qf_iscancelled = False, qf_resolved = False, qf_rejected = False, qf_posted = []\<rparr>"

text \<open>
  \<open>set_cancelled\<close>: \<open>emit_raises\<close> is what emitting the signal \<open>cancelled\<close>, which is declared with one
  argument, without an argument raises.
\<close>

definition qf_set_cancelled :: "exn option \<Rightarrow> qtfuture \<Rightarrow> exn option \<times> qtfuture" where
  "qf_set_cancelled emit_raises f =
     (case emit_raises of
        Some e \<Rightarrow> (Some (unwind (qt_entry ''set_cancelled'' False 112) e), f)
      | None \<Rightarrow> (None, f\<lparr>qf_iscancelled := True\<rparr>))"

definition qf_done :: "qtfuture \<Rightarrow> bool" where
  "qf_done f = (qf_resolved f \<or> qf_rejected f \<or> qf_iscancelled f)"

definition qf_is_cancelled :: "qtfuture \<Rightarrow> bool" where
  "qf_is_cancelled f = (qf_aiofuture f = AioCancelled)"

text \<open>\<open>resolve\<close> and \<open>reject\<close>, called on the Qt thread; \<open>shut\<close>: the future's loop is closed.\<close>

definition qf_resolve :: "bool \<Rightarrow> caller \<Rightarrow> pyval \<Rightarrow> qtfuture \<Rightarrow> exn option \<times> qtfuture" where
  "qf_resolve shut c returns f =
     (if shut then (Some (loop_closed_error (qt_entry ''resolve'' False 129)), f\<lparr>qf_resolved := True\<rparr>)
      else (None, f\<lparr>qf_resolved := True, qf_posted := qf_posted f @ [PostResult (c_vars c, returns)]\<rparr>))"

definition qf_reject :: "bool \<Rightarrow> exn \<Rightarrow> qtfuture \<Rightarrow> exn option \<times> qtfuture" where
  "qf_reject shut e f =
     (if shut then (Some (loop_closed_error (qt_entry ''reject'' False 135)), f\<lparr>qf_rejected := True\<rparr>)
      else (None, f\<lparr>qf_rejected := True, qf_posted := qf_posted f @ [PostExn e]\<rparr>))"

text \<open>One turn of the loop, as far as this future goes.\<close>

definition qf_turn :: "qtfuture \<Rightarrow> qtfuture" where
  "qf_turn f =
     (case qf_posted f of
        [] \<Rightarrow> f
      | p # ps \<Rightarrow> f\<lparr>qf_aiofuture := run_post p (qf_aiofuture f), qf_posted := ps\<rparr>)"

subsection \<open>qt\_to\_async\<close>

text \<open>
  What code on the Qt thread does to a future, from a frame whose context \<open>resolve\<close> copies; and a
  slot, given the frame it runs in: what it does to the future, in order, and what it raises.
\<close>

datatype qt_act = Resolve caller pyval | Reject exn

type_synonym qt_slot = "caller \<Rightarrow> qt_act list \<times> exn option"

fun do_act :: "bool \<Rightarrow> qt_act \<Rightarrow> qtfuture \<Rightarrow> qtfuture" where
  "do_act shut (Resolve c v) f = snd (qf_resolve shut c v f)"
| "do_act shut (Reject e) f = snd (qf_reject shut e f)"

text \<open>
  \<open>on_called\<close> on the Qt thread. \<open>ctx.run\<close> runs the slot in the context of the caller of
  \<open>acall\<close>; the context of the Qt thread is not touched, so it does not occur. An exception
  that is no \<open>Exception\<close> leaves the handler.
\<close>

definition qt_on_called :: "bool \<Rightarrow> qt_slot \<Rightarrow> ctx \<Rightarrow> qtfuture \<Rightarrow> exn option \<times> qtfuture" where
  "qt_on_called shut coro ctx f =
     (case coro \<lparr>c_vars = ctx, c_running = None\<rparr> of
        (acts, None) \<Rightarrow> (None, fold (do_act shut) acts f)
      | (acts, Some e) \<Rightarrow>
          let e' = unwind (qt_entry ''on_called'' False 233) e;
              f' = fold (do_act shut) acts f
          in if catches [ExceptionExn] e then qf_reject shut e' f' else (Some e', f'))"

text \<open>The constructors of both wrappers of slots refuse a coroutine function.\<close>

definition qt_wrapper_init :: "int \<Rightarrow> fkind \<Rightarrow> exn option" where
  "qt_wrapper_init line coro =
     (if coro = CoroutineFunction
      then Some (new_exn (qt_entry ''__init__'' False line) AssertionError
             ''This should not be a coroutine, but a normal qt slot'')
      else None)"

text \<open>
  What happens while \<open>acall\<close> waits: the slot is called, the future is resolved or rejected
  later from the Qt thread, the loop turns, the task is cancelled, the time is up.
\<close>

datatype qt_ev =
    QtCalled
  | QtAct qt_act
  | QtTurn
  | QtCancelTask
  | QtTimedOut

fun qt_step :: "qt_slot \<Rightarrow> ctx \<Rightarrow> qt_ev \<Rightarrow> qtfuture \<Rightarrow> qtfuture" where
  "qt_step coro ctx QtCalled f = snd (qt_on_called False coro ctx f)"
| "qt_step coro ctx (QtAct act) f = do_act False act f"
| "qt_step coro ctx QtTurn f = qf_turn f"
| "qt_step coro ctx QtCancelTask f = f"
| "qt_step coro ctx QtTimedOut f = f"

text \<open>
  The await of the future, with or without \<open>wait_for\<close>; \<open>None\<close>: it is still waiting when the events
  are used up. The cancellation of the task and the timeout cancel the asyncio future.
\<close>

fun qt_await ::
    "qt_slot \<Rightarrow> ctx \<Rightarrow> bool \<Rightarrow> qt_ev list \<Rightarrow> qtfuture \<Rightarrow> ((exn + ctx \<times> pyval) \<times> qtfuture \<times> qt_ev list) option" where
  "qt_await coro ctx timed evs f =
     (case qf_aiofuture f of
        AioResult r \<Rightarrow> Some (Inr r, f, evs)
      | AioExn e \<Rightarrow> Some (Inl e, f, evs)
      | AioCancelled \<Rightarrow> Some (Inl (make_exn AsyncioCancelledError []), f, evs)
      | AioPending \<Rightarrow>
          (case evs of
             [] \<Rightarrow> None
           | QtCancelTask # evs' \<Rightarrow>
               Some (Inl (make_exn AsyncioCancelledError []), f\<lparr>qf_aiofuture := AioCancelled\<rparr>, evs')
           | ev # evs' \<Rightarrow>
               if ev = QtTimedOut \<and> timed
               then Some (Inl (make_exn TimeoutError []), f\<lparr>qf_aiofuture := AioCancelled\<rparr>, evs')
               else qt_await coro ctx timed evs' (qt_step coro ctx ev f)))"

declare qt_await.simps [simp del]

text \<open>
  \<open>acall\<close>: the result, the frame, the future, whether the signal \<open>cancelled\<close> of the wrapper was
  emitted, and the events left. A timeout of zero is none.
\<close>

definition has_timeout :: "time option \<Rightarrow> bool" where
  "has_timeout timeout = (case timeout of None \<Rightarrow> False | Some t \<Rightarrow> t \<noteq> 0)"

definition qt_acall ::
    "qt_slot \<Rightarrow> time option \<Rightarrow> exn option \<Rightarrow> caller \<Rightarrow> qt_ev list \<Rightarrow>
     ((exn + pyval) \<times> caller \<times> qtfuture \<times> bool \<times> qt_ev list) option" where
  "qt_acall coro timeout emit_raises c evs =
     (let line = (if has_timeout timeout then 248 else 252) in
      case qt_await coro (c_vars c) (has_timeout timeout) evs qtfuture_init of
        None \<Rightarrow> None
      | Some (Inr (ctx, x), f, evs') \<Rightarrow>
          Some (Inr x, c\<lparr>c_vars := set_items ctx (c_vars c)\<rparr>, f, False, evs')
      | Some (Inl e, f, evs') \<Rightarrow>
          let e' = unwind (qt_entry ''acall'' True line) e
          in if catches [AsyncioCancelledError] e then
               (case qf_set_cancelled emit_raises f of
                  (Some x, f') \<Rightarrow> Some (Inl (unwind (qt_entry ''acall'' True 260) x), c, f', False, evs')
                | (None, f') \<Rightarrow> Some (Inl e', c, f', True, evs'))
             else Some (Inl e', c, f, False, evs'))"

subsection \<open>QtGenerator\<close>

text \<open>What is in the queue: a value with the context it was yielded in, or an exception.\<close>

datatype gen_item = GItem ctx pyval | GThrow exn

record qtgen =
  qg_queue :: "gen_item list"
  qg_posted :: "gen_item list"
  qg_iscancelled :: bool

definition qtgen_init :: qtgen where
  "qtgen_init = \<lparr>qg_queue = [], qg_posted = [], qg_iscancelled = False\<rparr>"

definition qg_set_cancelled :: "qtgen \<Rightarrow> qtgen" where
  "qg_set_cancelled g = g\<lparr>qg_iscancelled := True\<rparr>"

definition qg_next :: "bool \<Rightarrow> caller \<Rightarrow> pyval \<Rightarrow> qtgen \<Rightarrow> exn option \<times> qtgen" where
  "qg_next shut c v g =
     (if shut then (Some (loop_closed_error (qt_entry ''next'' False 177)), g)
      else (None, g\<lparr>qg_posted := qg_posted g @ [GItem (c_vars c) v]\<rparr>))"

definition qg_throw :: "bool \<Rightarrow> exn \<Rightarrow> qtgen \<Rightarrow> exn option \<times> qtgen" where
  "qg_throw shut e g =
     (if shut then (Some (loop_closed_error (qt_entry ''throw'' False 181)), g)
      else (None, g\<lparr>qg_posted := qg_posted g @ [GThrow e]\<rparr>))"

definition qg_stop :: "bool \<Rightarrow> qtgen \<Rightarrow> exn option \<times> qtgen" where
  "qg_stop shut g =
     (case qg_throw shut (make_exn QtStopIteration []) g of
        (Some x, g') \<Rightarrow> (Some (unwind (qt_entry ''stop'' False 185) x), g')
      | (None, g') \<Rightarrow> (None, g'))"

text \<open>One turn of the loop: \<open>put_nowait\<close> of the oldest item. The queue has no bound.\<close>

definition qg_turn :: "qtgen \<Rightarrow> qtgen" where
  "qg_turn g =
     (case qg_posted g of [] \<Rightarrow> g | i # is \<Rightarrow> g\<lparr>qg_queue := qg_queue g @ [i], qg_posted := is\<rparr>)"

text \<open>\<open>anext\<close>: \<open>None\<close> while the queue is empty.\<close>

definition qg_anext :: "qtgen \<Rightarrow> ((exn + ctx \<times> pyval) \<times> qtgen) option" where
  "qg_anext g =
     (case qg_queue g of
        [] \<Rightarrow> None
      | GThrow e # q \<Rightarrow> Some (Inl (unwind (qt_entry ''anext'' False 195) e), g\<lparr>qg_queue := q\<rparr>)
      | GItem cx v # q \<Rightarrow> Some (Inr (cx, v), g\<lparr>qg_queue := q\<rparr>))"

subsection \<open>qt\_gen\_to\_async\_gen\<close>

text \<open>What code on the Qt thread does to a generator; a slot as above.\<close>

datatype gen_act = YieldNext caller pyval | Throw exn | Stop

type_synonym qt_gen_slot = "caller \<Rightarrow> gen_act list \<times> exn option"

fun do_gen_act :: "bool \<Rightarrow> gen_act \<Rightarrow> qtgen \<Rightarrow> qtgen" where
  "do_gen_act shut (YieldNext c v) g = snd (qg_next shut c v g)"
| "do_gen_act shut (Throw e) g = snd (qg_throw shut e g)"
| "do_gen_act shut Stop g = snd (qg_stop shut g)"

definition qt_gen_on_called :: "bool \<Rightarrow> qt_gen_slot \<Rightarrow> ctx \<Rightarrow> qtgen \<Rightarrow> exn option \<times> qtgen" where
  "qt_gen_on_called shut coro ctx g =
     (case coro \<lparr>c_vars = ctx, c_running = None\<rparr> of
        (acts, None) \<Rightarrow> (None, fold (do_gen_act shut) acts g)
      | (acts, Some e) \<Rightarrow>
          let e' = unwind (qt_entry ''on_called'' False 296) e;
              g' = fold (do_gen_act shut) acts g
          in if catches [ExceptionExn] e then qg_throw shut e' g' else (Some e', g'))"

text \<open>
  The async generator that \<open>acall\<close> makes: its Qt generator, the wrapper's timeout, where its body
  is, and whether the wrapper's signal \<open>cancelled\<close> was emitted.
\<close>

record qt_agen =
  qa_gen :: qtgen
  qa_timeout :: "time option"
  qa_state :: gen_state
  qa_emitted :: bool

definition qt_gen_acall :: "time option \<Rightarrow> qt_agen" where
  "qt_gen_acall timeout = \<lparr>qa_gen = qtgen_init, qa_timeout = timeout, qa_state = GenFresh, qa_emitted = False\<rparr>"

text \<open>How a step of the consumer that finds the queue empty goes on: it waits, is cancelled, or times out.\<close>

datatype qt_wait = Waiting | TaskCancelledNow | TimeIsUp

text \<open>
  One step, \<open>__anext__\<close>, of the body: \<open>QtStopIteration\<close> ends it, every other exception leaves it,
  and the handler around the loop marks the Qt generator when the task was cancelled.
\<close>

definition qa_raise :: "exn \<Rightarrow> qt_agen \<Rightarrow> caller \<Rightarrow> (exn + pyval) \<times> qt_agen \<times> caller" where
  "qa_raise e a c =
     (let e' = unwind (qt_entry ''acall'' True (if has_timeout (qa_timeout a) then 314 else 318)) e;
          a' = a\<lparr>qa_state := GenFinished\<rparr>
      in if catches [QtStopIteration] e then (Inl (make_exn StopAsyncIteration []), a', c)
         else if catches [AsyncioCancelledError] e
         then (Inl e', a'\<lparr>qa_gen := qg_set_cancelled (qa_gen a'), qa_emitted := True\<rparr>, c)
         else (Inl e', a', c))"

definition qa_anext :: "qt_wait \<Rightarrow> qt_agen \<Rightarrow> caller \<Rightarrow> ((exn + pyval) \<times> qt_agen \<times> caller) option" where
  "qa_anext wait a c =
     (if qa_state a = GenFinished then Some (Inl (make_exn StopAsyncIteration []), a, c)
      else case qg_anext (qa_gen a) of
        Some (Inr (ctx, result), g) \<Rightarrow>
          Some (Inr result, a\<lparr>qa_gen := g, qa_state := GenSuspended\<rparr>, c\<lparr>c_vars := set_items ctx (c_vars c)\<rparr>)
      | Some (Inl e, g) \<Rightarrow> Some (qa_raise e (a\<lparr>qa_gen := g\<rparr>) c)
      | None \<Rightarrow>
          (case wait of
             Waiting \<Rightarrow> None
           | TaskCancelledNow \<Rightarrow> Some (qa_raise (make_exn AsyncioCancelledError []) a c)
           | TimeIsUp \<Rightarrow>
               if has_timeout (qa_timeout a) then Some (qa_raise (make_exn TimeoutError []) a c) else None))"

subsection \<open>async\_to\_qt and async\_gen\_to\_qt\<close>

text \<open>
  \<open>run\<close>: the coroutine is submitted to the ambient loop with the signals of the object. \<open>emits\<close> is
  what emitting a signal raises, \<open>call\<close> what calling the function raises.
\<close>

definition async_to_qt_run ::
    "(signal \<Rightarrow> exn option) \<Rightarrow> time option \<Rightarrow> exn option \<Rightarrow> caller \<Rightarrow> world \<Rightarrow> (exn + kfut) \<times> world" where
  "async_to_qt_run emits timeout call c w =
     (case get_koiled_loop_or_raise None c w of
        Inl e \<Rightarrow> (Inl (unwind (qt_entry ''run'' False 373) e), w)
      | Inr l \<Rightarrow>
          (case run_async_sharing_context l (Some emits) timeout call c w of
             (Inl e, w') \<Rightarrow> (Inl (unwind (qt_entry ''run'' False 382) e), w')
           | (Inr kf, w') \<Rightarrow> (Inr kf, w')))"

definition async_gen_to_qt_run ::
    "(signal \<Rightarrow> exn option) \<Rightarrow> time option \<Rightarrow> exn option \<Rightarrow> caller \<Rightarrow> world \<Rightarrow> (exn + kfut) \<times> world" where
  "async_gen_to_qt_run emits timeout call c w =
     (case get_koiled_loop_or_raise None c w of
        Inl e \<Rightarrow> (Inl (unwind (qt_entry ''run'' False 438) e), w)
      | Inr l \<Rightarrow>
          (case iterate_async_sharing_context l (Some emits) timeout call c w of
             (Inl e, w') \<Rightarrow> (Inl (unwind (qt_entry ''run'' False 447) e), w')
           | (Inr kf, w') \<Rightarrow> (Inr kf, w')))"

text \<open>
  \<open>on_returnedwithoutcontext\<close> and \<open>on_yieldedwithoutcontext\<close> on the Qt thread: the signal is
  emitted, and its slots run, inside the context of the coroutine. The result is what a slot
  raised and the frame of the Qt thread.
\<close>

definition emit_in_context ::
    "int \<Rightarrow> string \<Rightarrow> (caller \<Rightarrow> pyval \<Rightarrow> exn option \<times> caller) \<Rightarrow> pyval \<times> ctx \<Rightarrow> caller \<Rightarrow> exn option \<times> caller" where
  "emit_in_context line fn slots answer c =
     (case answer of (res, ctxs) \<Rightarrow>
      case slots (c\<lparr>c_vars := ctxs\<rparr>) res of (r, inner) \<Rightarrow>
        (map_option (unwind (qt_entry fn False line)) r, c))"

definition on_returnedwithoutcontext ::
    "(caller \<Rightarrow> pyval \<Rightarrow> exn option \<times> caller) \<Rightarrow> pyval \<times> ctx \<Rightarrow> caller \<Rightarrow> exn option \<times> caller" where
  "on_returnedwithoutcontext slots answer c = emit_in_context 370 ''on_returnedwithoutcontext'' slots answer c"

definition on_yieldedwithoutcontext ::
    "(caller \<Rightarrow> pyval \<Rightarrow> exn option \<times> caller) \<Rightarrow> pyval \<times> ctx \<Rightarrow> caller \<Rightarrow> exn option \<times> caller" where
  "on_yieldedwithoutcontext slots answer c = emit_in_context 435 ''on_yieldedwithoutcontext'' slots answer c"

subsection \<open>QtKoil\<close>

text \<open>
  A window: the koils of the \<open>WrappedObject\<close>s that replaced its \<open>closeEvent\<close>, the last one first,
  since each calls the handler it found; and those connected to its signal \<open>destroyed\<close>, in the
  order in which they were connected.
\<close>

record qt_window =
  qw_close_hooks :: "nat list"
  qw_destroyed :: "nat list"

definition wrapped_object_init :: "nat \<Rightarrow> qt_window \<Rightarrow> qt_window" where
  "wrapped_object_init k p = p\<lparr>qw_close_hooks := k # qw_close_hooks p, qw_destroyed := qw_destroyed p @ [k]\<rparr>"

text \<open>\<open>if self.koil.running: self.koil.__exit__(None, None, None)\<close>.\<close>

definition exit_if_running ::
    "tb_entry \<Rightarrow> nat \<Rightarrow> time option \<Rightarrow> caller \<Rightarrow> world \<Rightarrow> (exn option \<times> caller \<times> world) option" where
  "exit_if_running t k d c w =
     (if k_running (rt_koils w k) then
        (case koil_exit k d c w of
           None \<Rightarrow> None
         | Some (Inl e, c', w') \<Rightarrow> Some (Some (unwind t e), c', w')
         | Some (Inr _, c', w') \<Rightarrow> Some (None, c', w'))
      else Some (None, c, w))"

text \<open>
  \<open>on_close_event\<close> for a chain of hooks, ending in the window's own handler, which is a
  parameter: what it raises, if anything.
\<close>

fun on_close_event ::
    "nat list \<Rightarrow> exn option \<Rightarrow> time option \<Rightarrow> caller \<Rightarrow> world \<Rightarrow> (exn option \<times> caller \<times> world) option" where
  "on_close_event [] own d c w = Some (own, c, w)"
| "on_close_event (k # ks) own d c w =
     (case exit_if_running (qt_entry ''on_close_event'' False 470) k d c w of
        None \<Rightarrow> None
      | Some (Some e, c', w') \<Rightarrow> Some (Some e, c', w')
      | Some (None, c', w') \<Rightarrow>
          (case on_close_event ks own d c' w' of
             None \<Rightarrow> None
           | Some (r, c2, w2) \<Rightarrow> Some (map_option (unwind (qt_entry ''on_close_event'' False 471)) r, c2, w2)))"

definition destroyedEvent :: "nat \<Rightarrow> time option \<Rightarrow> caller \<Rightarrow> world \<Rightarrow> (exn option \<times> caller \<times> world) option" where
  "destroyedEvent k d c w = exit_if_running (qt_entry ''destroyedEvent'' False 476) k d c w"

definition qtkoil_init ::
    "bool \<Rightarrow> bool \<Rightarrow> time option \<Rightarrow> bool \<Rightarrow> time option \<Rightarrow> 'z rt_scheme \<Rightarrow> nat \<times> 'z rt_scheme" where
  "qtkoil_init sync_in_async uvify shutdown_join_timeout rewrite_tracebacks cancel_timeout s =
     (case koil_init sync_in_async uvify shutdown_join_timeout rewrite_tracebacks cancel_timeout s of
        (k, s') \<Rightarrow> (k, upd_koil k (\<lambda>x. x\<lparr>k_class := ''QtKoil''\<rparr>) s'))"

text \<open>
  \<open>QtKoil.__enter__\<close>: \<open>parent\<close> is the window, \<open>None\<close> if there is none, \<open>app\<close> says whether there is a
  \<open>QApplication\<close>. The koil is entered before any of the checks.
\<close>

definition qtkoil_enter ::
    "nat \<Rightarrow> bool \<Rightarrow> qt_window option \<Rightarrow> caller \<Rightarrow> world \<Rightarrow> (exn + nat) \<times> qt_window option \<times> caller \<times> world" where
  "qtkoil_enter k app parent c w =
     (case koil_enter k c w of
        (Inl e, c1, w1) \<Rightarrow> (Inl (unwind (qt_entry ''__enter__'' False 500) e), parent, c1, w1)
      | (Inr _, c1, w1) \<Rightarrow>
          (case parent of
             None \<Rightarrow> (Inl (new_exn (qt_entry ''__enter__'' False 501) AssertionError
                       ''Parent must be set before entering the loop''), None, c1, w1)
           | Some p \<Rightarrow>
               let p' = wrapped_object_init k p in
               if app then (Inr k, Some p', c1, w1)
               else (Inl (new_exn (qt_entry ''__enter__'' False 508) NotImplementedError
                       ''Qt Application not found''), Some p', c1, w1)))"

definition create_qt_koil ::
    "qt_window option \<Rightarrow> bool \<Rightarrow> bool \<Rightarrow> bool \<Rightarrow> bool \<Rightarrow> time option \<Rightarrow> bool \<Rightarrow> time option \<Rightarrow> caller \<Rightarrow> world \<Rightarrow>
     (exn + nat) \<times> qt_window option \<times> caller \<times> world" where
  "create_qt_koil parent auto_enter app sync_in_async uvify shutdown_join_timeout rewrite_tracebacks cancel_timeout c w =
     (case qtkoil_init sync_in_async uvify shutdown_join_timeout rewrite_tracebacks cancel_timeout w of
        (k, w1) \<Rightarrow> if auto_enter then qtkoil_enter k app parent c w1 else (Inr k, parent, c, w1))"

text \<open>\<open>QtKoilMixin.__init__\<close>: the koil is made with the defaults and not entered.\<close>

definition qtkoil_mixin_init :: "qt_window \<Rightarrow> bool \<Rightarrow> caller \<Rightarrow> world \<Rightarrow> (exn + nat) \<times> qt_window option \<times> caller \<times> world" where
  "qtkoil_mixin_init self app c w = create_qt_koil (Some self) False app True True None True (Some 2) c w"

subsection \<open>The first outcome wins\<close>

fun act_post :: "qt_act \<Rightarrow> qt_post" where
  "act_post (Resolve c v) = PostResult (c_vars c, v)"
| "act_post (Reject e) = PostExn e"

text \<open>What an event hands to the loop.\<close>

fun ev_posts :: "qt_slot \<Rightarrow> ctx \<Rightarrow> qt_ev \<Rightarrow> qt_post list" where
  "ev_posts coro ctx QtCalled =
     (case coro \<lparr>c_vars = ctx, c_running = None\<rparr> of (acts, r) \<Rightarrow>
        map act_post acts @
        (case r of
           None \<Rightarrow> []
         | Some e \<Rightarrow> if catches [ExceptionExn] e then [PostExn (unwind (qt_entry ''on_called'' False 233) e)] else []))"
| "ev_posts coro ctx (QtAct a) = [act_post a]"
| "ev_posts coro ctx _ = []"

lemma do_act_eq [simp]:
  "qf_posted (do_act False a f) = qf_posted f @ [act_post a]" "qf_aiofuture (do_act False a f) = qf_aiofuture f"
  "qf_iscancelled (do_act False a f) = qf_iscancelled f"
  by (cases a; simp add: qf_resolve_def qf_reject_def)+

lemma do_acts_eq [simp]:
  "qf_posted (fold (do_act False) as f) = qf_posted f @ map act_post as"
  "qf_aiofuture (fold (do_act False) as f) = qf_aiofuture f"
  "qf_iscancelled (fold (do_act False) as f) = qf_iscancelled f"
  by (induction as arbitrary: f) simp_all

lemma qt_step_eq:
  "ev \<noteq> QtTurn \<Longrightarrow> qf_posted (qt_step coro ctx ev f) = qf_posted f @ ev_posts coro ctx ev"
  "ev \<noteq> QtTurn \<Longrightarrow> qf_aiofuture (qt_step coro ctx ev f) = qf_aiofuture f"
  "qf_iscancelled (qt_step coro ctx ev f) = qf_iscancelled f"
  by (cases ev; auto simp: qt_on_called_def qf_reject_def qf_turn_def Let_def split: prod.splits option.splits list.splits)+




lemma qt_await_cancel:
  assumes "qf_aiofuture f = AioPending" and "list_all (\<lambda>ev. ev \<notin> {QtTurn, QtCancelTask, QtTimedOut}) pre"
  shows "\<exists>f'. qt_await coro ctx timed (pre @ QtCancelTask # evs) f = Some (Inl (make_exn AsyncioCancelledError []), f', evs) \<and>
    qf_iscancelled f' = qf_iscancelled f"
  using assms
proof (induction pre arbitrary: f)
  case Nil
  then show ?case by (simp add: qt_await.simps)
next
  case (Cons ev pre)
  then have "qt_await coro ctx timed (ev # pre @ QtCancelTask # evs) f =
      qt_await coro ctx timed (pre @ QtCancelTask # evs) (qt_step coro ctx ev f)"
    by (cases ev) (auto simp: qt_await.simps [of _ _ _ "_ # _"])
  with Cons.IH [of "qt_step coro ctx ev f"] Cons.prems show ?case by (simp add: qt_step_eq)
qed

subsection \<open>A generator as a queue\<close>

text \<open>
  The Qt thread, the loop and the consumer in any interleaving. The state carries along what
  was handed over (\<open>history\<close>) and what the consumer has seen; a consumer that finds nothing
  waits, and one whose generator is over asks no more.
\<close>

datatype gen_op = Produce gen_act | LoopTurn | Consume

type_synonym gen_system = "qt_agen \<times> caller \<times> gen_item list \<times> (exn_class + pyval) list"

fun act_item :: "gen_act \<Rightarrow> gen_item" where
  "act_item (YieldNext c v) = GItem (c_vars c) v"
| "act_item (Throw e) = GThrow e"
| "act_item Stop = GThrow (make_exn QtStopIteration [])"

fun gen_step :: "gen_op \<Rightarrow> gen_system \<Rightarrow> gen_system" where
  "gen_step (Produce a) (ag, c, h, seen) =
     (ag\<lparr>qa_gen := do_gen_act False a (qa_gen ag)\<rparr>, c, h @ [act_item a], seen)"
| "gen_step LoopTurn (ag, c, h, seen) = (ag\<lparr>qa_gen := qg_turn (qa_gen ag)\<rparr>, c, h, seen)"
| "gen_step Consume (ag, c, h, seen) =
     (if qa_state ag = GenFinished then (ag, c, h, seen)
      else case qa_anext Waiting ag c of
        None \<Rightarrow> (ag, c, h, seen)
      | Some (Inl e, ag', c') \<Rightarrow> (ag', c', h, seen @ [Inl (ecls e)])
      | Some (Inr v, ag', c') \<Rightarrow> (ag', c', h, seen @ [Inr v]))"

text \<open>
  The specification: the values up to the first exception, then that exception, where
  \<open>QtStopIteration\<close> is the regular end of an async generator.
\<close>

fun gen_spec :: "gen_item list \<Rightarrow> (exn_class + pyval) list" where
  "gen_spec [] = []"
| "gen_spec (GItem cx v # h) = Inr v # gen_spec h"
| "gen_spec (GThrow e # h) = [Inl (if catches [QtStopIteration] e then StopAsyncIteration else ecls e)]"

fun is_item :: "gen_item \<Rightarrow> bool" where
  "is_item (GItem cx v) = True"
| "is_item (GThrow e) = False"

lemma gen_spec_append:
  "gen_spec (xs @ ys) = gen_spec xs @ (if list_all is_item xs then gen_spec ys else [])"
  by (induction xs rule: gen_spec.induct) auto

definition gen_ok :: "gen_system \<Rightarrow> bool" where
  "gen_ok = (\<lambda>(ag, c, h, seen).
     if qa_state ag = GenFinished then \<not> list_all is_item h \<and> seen = gen_spec h
     else \<exists>del. h = del @ qg_queue (qa_gen ag) @ qg_posted (qa_gen ag) \<and> list_all is_item del \<and> seen = gen_spec del)"

lemma do_gen_act_eq [simp]:
  "qg_queue (do_gen_act False a g) = qg_queue g" "qg_posted (do_gen_act False a g) = qg_posted g @ [act_item a]"
  by (cases a; simp add: qg_next_def qg_throw_def qg_stop_def)+

lemma gen_ok_produce: "gen_ok (ag, c, h, seen) \<Longrightarrow> gen_ok (gen_step (Produce a) (ag, c, h, seen))"
  by (auto simp: gen_ok_def gen_spec_append split: if_splits)

lemma gen_ok_turn: "gen_ok (ag, c, h, seen) \<Longrightarrow> gen_ok (gen_step LoopTurn (ag, c, h, seen))"
  by (auto simp: gen_ok_def qg_turn_def split: if_splits list.splits)

lemma qa_raise_Inl: "\<exists>x a' c'. qa_raise e a c = (Inl x, a', c')"
  by (simp add: qa_raise_def Let_def)

lemma qa_raise_eq:
  "qa_raise e a c = (Inl x, a', c') \<Longrightarrow>
   qa_state a' = GenFinished \<and> ecls x = (if catches [QtStopIteration] e then StopAsyncIteration else ecls e)"
  by (auto simp: qa_raise_def Let_def split: if_splits)

lemma gen_ok_consume:
  assumes "gen_ok (ag, c, h, seen)"
  shows "gen_ok (gen_step Consume (ag, c, h, seen))"
proof (cases "qa_state ag = GenFinished \<or> qg_queue (qa_gen ag) = []")
  case True
  with assms show ?thesis by (auto simp: qa_anext_def qg_anext_def)
next
  case False
  then obtain i q where q: "qg_queue (qa_gen ag) = i # q" by (cases "qg_queue (qa_gen ag)") auto
  with False assms obtain del where del: "h = del @ (i # q) @ qg_posted (qa_gen ag)" "list_all is_item del"
    "seen = gen_spec del" by (auto simp: gen_ok_def)
  show ?thesis
  proof (cases i)
    case (GItem cx v)
    with False q del show ?thesis
      by (auto simp: qa_anext_def qg_anext_def gen_ok_def gen_spec_append intro!: exI [of _ "del @ [i]"])
  next
    case (GThrow e)
    let ?e = "unwind (qt_entry ''anext'' False 195) e"
    let ?ag = "ag\<lparr>qa_gen := (qa_gen ag)\<lparr>qg_queue := q\<rparr>\<rparr>"
    obtain x ag' c' where r: "qa_raise ?e ?ag c = (Inl x, ag', c')"
      using qa_raise_Inl by blast
    with False q GThrow have "gen_step Consume (ag, c, h, seen) = (ag', c', h, seen @ [Inl (ecls x)])"
      by (simp add: qa_anext_def qg_anext_def)
    with qa_raise_eq [OF r] del GThrow show ?thesis by (simp add: gen_ok_def gen_spec_append)
  qed
qed

interpretation qt_generator: step_invariant gen_step gen_ok
proof
  fix s :: gen_system and e
  assume "gen_ok s"
  then show "gen_ok (gen_step e s)"
    by (cases s; cases e) (auto simp only: intro: gen_ok_produce gen_ok_turn gen_ok_consume)
qed

subsection \<open>Properties\<close>


text \<open>
  C37: what the cancellation of a waiting \<open>acall\<close> does depends on Qt: if emitting \<open>QtFuture.cancelled\<close>,
  a signal with one argument, without an argument raises, as it is documented to, then that
  exception takes the place of the cancellation, the wrapper's signal is not emitted and the
  future is not marked. Otherwise \<open>CancelledError\<close> is raised after both.
\<close>

theorem qt_acall_cancel:
  assumes "list_all (\<lambda>ev. ev \<notin> {QtTurn, QtCancelTask, QtTimedOut}) pre"
  shows "\<exists>x f emitted. qt_acall coro timeout emit_raises c (pre @ QtCancelTask # evs) = Some (Inl x, c, f, emitted, evs) \<and>
    (case emit_raises of
       None \<Rightarrow> ecls x = AsyncioCancelledError \<and> emitted \<and> qf_iscancelled f
     | Some e \<Rightarrow> ecls x = ecls e \<and> \<not> emitted \<and> \<not> qf_iscancelled f)"
proof -
  obtain f where "qt_await coro (c_vars c) (has_timeout timeout) (pre @ QtCancelTask # evs) qtfuture_init =
      Some (Inl (make_exn AsyncioCancelledError []), f, evs)" "\<not> qf_iscancelled f"
    using qt_await_cancel [OF _ assms, of qtfuture_init] by (fastforce simp: qtfuture_init_def)
  then show ?thesis
    by (auto simp: qt_acall_def Let_def qf_set_cancelled_def catches_def koil_simps split: option.splits)
qed

text \<open>
  C12: an async generator over a Qt generator is a FIFO queue. For every interleaving of the Qt
  thread, the loop's turns and the consumer, what the consumer has seen is an initial part of
  what was handed over, in that order, up to the first exception; and it is all of it once
  nothing is under way or the generator is over. Nothing is lost, duplicated or reordered.
\<close>

theorem qt_generator_fifo:
  assumes "fold gen_step ops (qt_gen_acall timeout, c, [], []) = (ag, c', history, seen)"
  shows "(\<exists>zs. gen_spec history = seen @ zs) \<and>
    (qa_state ag = GenFinished \<or> qg_queue (qa_gen ag) = [] \<and> qg_posted (qa_gen ag) = [] \<longrightarrow> seen = gen_spec history)"
proof -
  have "gen_ok (qt_gen_acall timeout, c, [], [])"
    by (simp add: gen_ok_def qt_gen_acall_def qtgen_init_def)
  from qt_generator.run_good [OF this, of ops] assms show ?thesis
    by (auto simp: gen_ok_def gen_spec_append split: if_splits)
qed

text \<open>
  C38: a koil entered for a window ends with the window. Closing the window leaves the koil: its
  loop is closed or told to stop, and nothing is ambient on the Qt thread. Closing it again or
  destroying it afterwards does nothing more.
\<close>

theorem qtkoil_close:
  assumes "ambient_koil c = None" and "c_running c = None" and "k_cancel_timeout (rt_koils w k) = Some ct"
    and "qtkoil_enter k True (Some \<lparr>qw_close_hooks = [], qw_destroyed = []\<rparr>) c w = (r, Some p, c1, w1)"
  shows "r = Inr k \<and>
    (\<exists>c2 w2. on_close_event (qw_close_hooks p) None d c1 w1 = Some (None, c2, w2) \<and>
       released (rt_nloops w) w2 \<and> detached k c2 w2 \<and>
       on_close_event (qw_close_hooks p) None d' c2 w2 = Some (None, c2, w2) \<and>
       destroyedEvent k d' c2 w2 = Some (None, c2, w2))"
proof -
  let ?w1 = "upd_koil k (\<lambda>x. x\<lparr>k_loop := Some (rt_nloops w), k_loop_thread := Some (rt_nloops w), k_running := True\<rparr>)
       (snd (get_threaded_loop (koil_thread_name (rt_koils w k)) (k_uvify (rt_koils w k)) w))"
  have ent: "r = Inr k" "qw_close_hooks p = [k]" "w1 = ?w1"
    using assms(1,2,4) koil_enter_starts [of c w k] by (auto simp: qtkoil_enter_def wrapped_object_init_def Let_def)
  have kl: "owns k (rt_nloops w) ?w1" "k_running (rt_koils ?w1 k)" "k_cancel_timeout (rt_koils ?w1 k) = Some ct"
    "\<not> l_closed (rt_loops ?w1 (rt_nloops w))"
    using assms(3) by (simp_all add: owns_def)
  obtain t alive where "join_loop_thread (rt_koils ?w1 k) d = Some (t, alive)"
    using join_loop_thread_total [OF kl(3)] by blast
  then obtain c2 w2 where ex: "koil_exit k d c1 ?w1 = Some (Inr (), c2, w2)" "\<not> k_running (rt_koils w2 k)"
    using koil_exit_with_loop [of ?w1 k "rt_nloops w" "rt_nloops w" d t alive c1] kl by (auto simp: owns_def Let_def)
  from koil_exit_releases [OF kl(1) ex(1)] ent ex kl(2) show ?thesis
    by (auto simp: exit_if_running_def destroyedEvent_def)
qed

text \<open>
  C39: \<open>QtKoil.__enter__\<close> looks for its window and for the application only after it has started the
  loop. When one is missing it raises, but the loop stays open and runs on, owned by the koil,
  which is left as the ambient one.
\<close>

theorem qtkoil_enter_leak:
  assumes "ambient_koil c = None" and "c_running c = None" and "parent = None \<or> \<not> app"
  shows "\<exists>x p' c1 w1. qtkoil_enter k app parent c w = (Inl x, p', c1, w1) \<and>
    ecls x = (if parent = None then AssertionError else NotImplementedError) \<and>
    owns k (rt_nloops w) w1 \<and> \<not> released (rt_nloops w) w1 \<and> ambient_koil c1 = Some k"
  using assms koil_enter_starts [of c w k]
  by (cases parent) (auto simp: qtkoil_enter_def Let_def owns_def released_def)

subsection \<open>Witnesses\<close>

definition twice :: qt_slot where
  "twice c = ([Resolve c (PyInt 1), Reject some_error], None)"



theorem qt_acall_cancel_witness:
  "\<exists>x f. qt_acall twice None (Some (make_exn TypeError [])) on_loop ([QtCalled] @ QtCancelTask # []) =
     Some (Inl x, on_loop, f, False, []) \<and> ecls x = TypeError"
  using qt_acall_cancel [of "[QtCalled]" twice None "Some (make_exn TypeError [])" on_loop "[]"] by auto

theorem qt_generator_fifo_witness:
  "\<exists>ag c' h. fold gen_step [Produce (YieldNext on_loop (PyInt 1)), Produce Stop, LoopTurn, LoopTurn, Consume, Consume]
       (qt_gen_acall None, on_loop, [], []) = (ag, c', h, [Inr (PyInt 1), Inl StopAsyncIteration]) \<and>
     gen_spec h = [Inr (PyInt 1), Inl StopAsyncIteration]"
proof -
  let ?ops = "[Produce (YieldNext on_loop (PyInt 1)), Produce Stop, LoopTurn, LoopTurn, Consume, Consume]"
  have "\<exists>ag c' h. fold gen_step ?ops (qt_gen_acall None, on_loop, [], []) =
      (ag, c', h, [Inr (PyInt 1), Inl StopAsyncIteration]) \<and> qa_state ag = GenFinished"
    by (simp add: qt_gen_acall_def qtgen_init_def qg_next_def qg_stop_def qg_throw_def qg_turn_def qa_anext_def
        qg_anext_def qa_raise_def catches_def issubclass.simps [of QtStopIteration] Let_def)
  then obtain ag c' h where out: "fold gen_step ?ops (qt_gen_acall None, on_loop, [], []) =
      (ag, c', h, [Inr (PyInt 1), Inl StopAsyncIteration])" "qa_state ag = GenFinished" by blast
  from qt_generator_fifo [OF out(1)] out show ?thesis by (metis)
qed

lemma fresh_koil_timeout: "k_cancel_timeout (rt_koils (snd (koil_default init_world)) 0) = Some 2"
  by (simp add: koil_default_def koil_init_def Let_def init_world_def init_rt_def rt.defs world.defs)

theorem qtkoil_close_witness:
  "\<exists>p c1 w1 c2 w2. qtkoil_enter 0 True (Some \<lparr>qw_close_hooks = [], qw_destroyed = []\<rparr>) init_caller (snd (koil_default init_world)) =
       (Inr 0, Some p, c1, w1) \<and>
     on_close_event (qw_close_hooks p) None None c1 w1 = Some (None, c2, w2) \<and> detached 0 c2 w2"
proof -
  let ?w = "snd (koil_default init_world)"
  obtain p c1 w1 where out: "qtkoil_enter 0 True (Some \<lparr>qw_close_hooks = [], qw_destroyed = []\<rparr>) init_caller ?w = (Inr 0, Some p, c1, w1)"
    using koil_enter_starts [of init_caller ?w 0] by (auto simp: qtkoil_enter_def Let_def)
  from qtkoil_close [OF _ _ fresh_koil_timeout out, of None None] out show ?thesis by auto
qed

theorem qtkoil_enter_leak_witness:
  "\<exists>x p' c1 w1. qtkoil_enter 0 False None init_caller init_world = (Inl x, p', c1, w1) \<and> ecls x = AssertionError \<and>
     ambient_koil c1 = Some 0"
  using qtkoil_enter_leak [of init_caller None False 0 init_world] by auto

end
