(* ===== verification/Koil_Compat.thy ===== *)
theory Koil_Compat
  imports Koil_Qt
begin

section \<open>Deprecated modules and test helpers\<close>

text \<open>
  The modules \<open>koil/helpers.py\<close>, \<open>koil/koil.py\<close> and \<open>koil/vars.py\<close>, which redirect old names to their
  new homes, and the helpers for pytest-qt in \<open>koil/contrib/pytest_qt.py\<close>.
\<close>

subsection \<open>Deprecated modules\<close>

text \<open>What a lookup that succeeds gives: the module and the name to import, and the warning.\<close>

type_synonym redirect = "string \<times> string \<times> string"

definition helpers_DEPRECATED :: "(string \<times> string \<times> string) list" where
  "helpers_DEPRECATED =
     [(''get_koiled_loop_or_raise'', ''koil.bridge'', ''get_koiled_loop_or_raise''),
      (''sleep'', ''koil.bridge'', ''sleep''),
      (''unkoil'', ''koil.bridge'', ''unkoil''),
      (''unkoil_gen'', ''koil.bridge'', ''unkoil_gen''),
      (''unkoil_task'', ''koil.bridge'', ''unkoil_task''),
      (''run_threaded'', ''koil.bridge'', ''run_threaded''),
      (''run_threaded_bridged'', ''koil.bridge'', ''run_threaded_bridged''),
      (''iterate_threaded'', ''koil.bridge'', ''iterate_threaded''),
      (''iterate_threaded_bridged'', ''koil.bridge'', ''iterate_threaded_bridged''),
      (''run_spawned'', ''koil.bridge'', ''run_threaded''),
      (''iterate_spawned'', ''koil.bridge'', ''iterate_threaded''),
      (''KOIL_CANCEL_TIMEOUT'', ''koil.bridge'', ''KOIL_CANCEL_TIMEOUT''),
      (''KoilThreadSafeEvent'', ''koil.context'', ''KoilThreadSafeEvent'')]"

definition helpers_RENAMED :: "(string \<times> string) list" where
  "helpers_RENAMED = [(''run_spawned'', ''run_threaded''), (''iterate_spawned'', ''iterate_threaded'')]"

definition no_attribute :: "string \<Rightarrow> int \<Rightarrow> string \<Rightarrow> exn" where
  "no_attribute modl line name =
     new_exn (entry modl ''__getattr__'' False line) AttributeError
       (''module '' @ modl @ '' has no attribute '' @ name)"

definition helpers_getattr :: "string \<Rightarrow> exn + redirect" where
  "helpers_getattr name =
     (case map_of helpers_DEPRECATED name of
        None \<Rightarrow> Inl (no_attribute ''koil.helpers'' 42 name)
      | Some (modl, target) \<Rightarrow>
          Inr (modl, target,
            if map_of helpers_RENAMED name \<noteq> None
            then ''koil.helpers.'' @ name @ '' has been renamed; import '' @ target @ '' from '' @ modl @ '' instead''
            else ''koil.helpers.'' @ name @ '' is deprecated; import '' @ target @ '' from '' @ modl @ '' instead''))"

definition koil_DEPRECATED :: "(string \<times> string \<times> string) list" where
  "koil_DEPRECATED =
     [(''Koil'', ''koil.loop'', ''Koil''),
      (''KoilProtocol'', ''koil.loop'', ''KoilProtocol''),
      (''get_threaded_loop'', ''koil.loop'', ''get_threaded_loop''),
      (''run_threaded_event_loop'', ''koil.loop'', ''run_threaded_event_loop''),
      (''_new_event_loop'', ''koil.loop'', ''_new_event_loop'')]"

definition koil_getattr :: "string \<Rightarrow> exn + redirect" where
  "koil_getattr name =
     (case map_of koil_DEPRECATED name of
        None \<Rightarrow> Inl (no_attribute ''koil.koil'' 27 name)
      | Some (modl, target) \<Rightarrow>
          Inr (modl, target,
            ''koil.koil.'' @ name @ '' is deprecated; import '' @ target @ '' from '' @ modl @ '' instead''))"

text \<open>\<open>__all__\<close> of \<open>koil.koil\<close>: the names that do not start with an underscore.\<close>

definition koil_all :: "string list" where
  "koil_all = filter (\<lambda>n. take 1 n \<noteq> ''_'') (map fst koil_DEPRECATED)"

definition vars_DEPRECATED :: "(string \<times> string \<times> string) list" where
  "vars_DEPRECATED =
     map (\<lambda>n. (n, ''koil.context'', n))
       [''KoiledLoop'', ''KoilThreadSafeEvent'', ''global_koil'', ''global_koil_loop'', ''current_koil'',
        ''current_cancel_event'', ''check_cancelled'']"

definition vars_getattr :: "string \<Rightarrow> exn + redirect" where
  "vars_getattr name =
     (case map_of vars_DEPRECATED name of
        None \<Rightarrow> Inl (no_attribute ''koil.vars'' 29 name)
      | Some (modl, target) \<Rightarrow>
          Inr (modl, target,
            ''koil.vars.'' @ name @ '' is deprecated; import '' @ target @ '' from '' @ modl @ '' instead''))"

text \<open>
  What the three modules have in common: a table without duplicate names decides what is found,
  and where; everything else is an \<open>AttributeError\<close>.
\<close>

locale redirecting_module =
  fixes table :: "(string \<times> string \<times> string) list"
    and getattr :: "string \<Rightarrow> exn + redirect"
  assumes distinct_names: "distinct (map fst table)"
    and found: "map_of table n = Some (m, t) \<Longrightarrow> \<exists>msg. getattr n = Inr (m, t, msg)"
    and missing: "map_of table n = None \<Longrightarrow> \<exists>x. getattr n = Inl x \<and> ecls x = AttributeError"
begin

lemma resolves_iff: "(\<exists>msg. getattr n = Inr (m, t, msg)) \<longleftrightarrow> (n, m, t) \<in> set table"
proof
  assume "\<exists>msg. getattr n = Inr (m, t, msg)"
  then obtain msg where r: "getattr n = Inr (m, t, msg)" by blast
  then obtain m' t' where "map_of table n = Some (m', t')"
    using missing [of n] by (cases "map_of table n") auto
  with found [OF this] r show "(n, m, t) \<in> set table" by (auto dest: map_of_SomeD)
next
  assume "(n, m, t) \<in> set table"
  then show "\<exists>msg. getattr n = Inr (m, t, msg)"
    using distinct_names found by simp
qed

lemma error_iff: "(\<exists>x. getattr n = Inl x) \<longleftrightarrow> n \<notin> fst ` set table"
proof (cases "map_of table n")
  case None
  with missing [of n] show ?thesis by (auto simp: map_of_eq_None_iff)
next
  case (Some y)
  with found [of n] show ?thesis
    by (cases y) (auto dest!: map_of_SomeD intro: rev_image_eqI)
qed

end

interpretation helpers: redirecting_module helpers_DEPRECATED helpers_getattr
  by unfold_locales (simp add: helpers_DEPRECATED_def, auto simp: helpers_getattr_def no_attribute_def)

interpretation koil_koil: redirecting_module koil_DEPRECATED koil_getattr
  by unfold_locales (simp add: koil_DEPRECATED_def, auto simp: koil_getattr_def no_attribute_def)

interpretation koil_vars: redirecting_module vars_DEPRECATED vars_getattr
  by unfold_locales (simp add: vars_DEPRECATED_def, auto simp: vars_getattr_def no_attribute_def)

subsection \<open>Waiting for a task in a test\<close>

text \<open>
  pytest-qt is a parameter: \<open>received\<close> are the signals of the task that were handled before
  \<open>waitSignal\<close> came back, none if it timed out, in which case it raises; \<open>cause\<close> is what the
  function that starts the task raises. An exception object counts as true.
\<close>

datatype task_signal = SigReturned pyval | SigErrored exn

datatype iter_signal = SigYielded pyval | SigIterErrored exn | SigDone

definition no_value :: pyval where
  "no_value = PyStr ''KARLKALRKARLAKRLAKRLAKRLKAR''"

definition waitSignal_timeout :: exn where
  "waitSignal_timeout = make_exn (UserError ''pytestqt.TimeoutError'' ExceptionExn) []"

text \<open>The callbacks: \<open>error_out\<close> and \<open>out\<close> hold the last error and the last value.\<close>

fun task_callback :: "task_signal \<Rightarrow> exn option \<times> pyval \<Rightarrow> exn option \<times> pyval" where
  "task_callback (SigReturned v) (error_out, out) = (error_out, v)"
| "task_callback (SigErrored e) (error_out, out) = (Some e, out)"

definition conclude_wait :: "string \<Rightarrow> int \<times> int \<Rightarrow> exn option \<times> pyval \<Rightarrow> exn + pyval" where
  "conclude_wait fn lines st =
     (case st of
        (Some e, out) \<Rightarrow> Inl (unwind (entry ''koil.contrib.pytest_qt'' fn False (fst lines)) e)
      | (None, out) \<Rightarrow>
          if out = no_value
          then Inl (new_exn (entry ''koil.contrib.pytest_qt'' fn False (snd lines)) RuntimeError
                 ''Task did not return anything'')
          else Inr out)"

definition wait_for_qttask :: "exn option \<Rightarrow> task_signal list \<Rightarrow> exn + pyval" where
  "wait_for_qttask cause received =
     (case cause of
        Some e \<Rightarrow> Inl (unwind (entry ''koil.contrib.pytest_qt'' ''wait_for_qttask'' False 54) e)
      | None \<Rightarrow>
          if received = [] then Inl (unwind (entry ''koil.contrib.pytest_qt'' ''wait_for_qttask'' False 52) waitSignal_timeout)
          else conclude_wait ''wait_for_qttask'' (57, 60) (fold task_callback received (None, no_value)))"

fun iter_callback :: "iter_signal \<Rightarrow> exn option \<times> pyval \<Rightarrow> exn option \<times> pyval" where
  "iter_callback (SigYielded v) (error_out, out) = (error_out, v)"
| "iter_callback (SigIterErrored e) (error_out, out) = (Some e, out)"
| "iter_callback SigDone (error_out, out) = (error_out, out)"

fun ends_wait :: "iter_signal \<Rightarrow> bool" where
  "ends_wait (SigYielded v) = False"
| "ends_wait (SigIterErrored e) = True"
| "ends_wait SigDone = True"

definition wait_for_qtgenerator :: "exn option \<Rightarrow> iter_signal list \<Rightarrow> exn + pyval" where
  "wait_for_qtgenerator cause received =
     (case cause of
        Some e \<Rightarrow> Inl (unwind (entry ''koil.contrib.pytest_qt'' ''wait_for_qtgenerator'' False 116) e)
      | None \<Rightarrow>
          if \<not> list_ex ends_wait received
          then Inl (unwind (entry ''koil.contrib.pytest_qt'' ''wait_for_qtgenerator'' False 114) waitSignal_timeout)
          else conclude_wait ''wait_for_qtgenerator'' (119, 122) (fold iter_callback received (None, no_value)))"

text \<open>A value comes out of the wait only if no error was signalled, and it is the last one.\<close>

lemma task_error_kept: "fst (fold task_callback rs (Some e, out)) \<noteq> None"
proof (induction rs arbitrary: e out)
  case (Cons a rs)
  then show ?case by (cases a) auto
qed simp

lemma task_values:
  "fold task_callback rs (None, out) = (None, v) \<Longrightarrow> list_all (\<lambda>r. \<exists>u. r = SigReturned u) rs \<and> v = last (out # [u. SigReturned u \<leftarrow> rs])"
proof (induction rs arbitrary: out)
  case (Cons a rs)
  show ?case
  proof (cases a)
    case (SigReturned u)
    with Cons.IH [of u] Cons.prems show ?thesis by simp
  next
    case (SigErrored e)
    with task_error_kept [of rs e out] Cons.prems show ?thesis by simp
  qed
qed simp

lemma iter_error_kept: "fst (fold iter_callback rs (Some e, out)) \<noteq> None"
proof (induction rs arbitrary: e out)
  case (Cons a rs)
  then show ?case by (cases a) auto
qed simp

lemma iter_values:
  "fold iter_callback rs (None, out) = (None, v) \<Longrightarrow> (\<forall>e. SigIterErrored e \<notin> set rs) \<and> v = last (out # [u. SigYielded u \<leftarrow> rs])"
proof (induction rs arbitrary: out)
  case (Cons a rs)
  show ?case
  proof (cases a)
    case (SigYielded u)
    with Cons.IH [of u] Cons.prems show ?thesis by simp
  next
    case (SigIterErrored e)
    with iter_error_kept [of rs e out] Cons.prems show ?thesis by simp
  next
    case SigDone
    with Cons.IH [of out] Cons.prems show ?thesis by simp
  qed
qed simp

lemma wait_for_qttask_value:
  assumes "wait_for_qttask cause received = Inr v"
  shows "cause = None \<and> received \<noteq> [] \<and> last received = SigReturned v \<and> (\<forall>e. SigErrored e \<notin> set received)"
proof -
  have c: "cause = None" "received \<noteq> []" "fold task_callback received (None, no_value) = (None, v)"
    using assms by (auto simp: wait_for_qttask_def conclude_wait_def split: option.splits if_splits prod.splits)
  from task_values [OF c(3)] have all: "list_all (\<lambda>r. \<exists>u. r = SigReturned u) received"
    and v: "v = last (no_value # [u. SigReturned u \<leftarrow> received])" by auto
  obtain rs r where rs: "received = rs @ [r]" using c(2) by (metis rev_exhaust)
  with all v have "r = SigReturned v" by auto
  with rs c all show ?thesis by (auto simp: list_all_iff)
qed

lemma wait_for_qtgenerator_value:
  assumes "wait_for_qtgenerator cause received = Inr v"
  shows "cause = None \<and> SigDone \<in> set received \<and> v = last (no_value # [u. SigYielded u \<leftarrow> received]) \<and>
    (\<forall>e. SigIterErrored e \<notin> set received)"
proof -
  have c: "cause = None" "list_ex ends_wait received" "fold iter_callback received (None, no_value) = (None, v)"
    using assms by (auto simp: wait_for_qtgenerator_def conclude_wait_def split: option.splits if_splits prod.splits)
  from iter_values [OF c(3)] have no: "\<forall>e. SigIterErrored e \<notin> set received"
    and v: "v = last (no_value # [u. SigYielded u \<leftarrow> received])" by auto
  from c(2) obtain x where "x \<in> set received" "ends_wait x" by (auto simp: list_ex_iff)
  with no have "SigDone \<in> set received" by (cases x) auto
  with c(1) no v show ?thesis by blast
qed

end
