(* ===== verification/Spec2Isabelle.thy ===== *)
theory Spec2Isabelle
  imports Koil_Compat
begin

text \<open>
  koil lets synchronous Python code call asynchronous code and the other way round. This
  development models its library code (\<open>src/koil\<close>) and proves what users of it rely on.

  \<^bold>\<open>The program.\<close> A \<open>Koil\<close> owns an event loop on a thread of its own and makes both ambient
  through context variables (\<open>loop.py\<close>, \<open>context.py\<close>). Synchronous code submits a coroutine to the
  ambient loop, where a task races the work against cancel events and a timer, and waits for
  its future (\<open>utils.py\<close>, the first half of \<open>bridge.py\<close>). Asynchronous code runs synchronous
  functions on worker threads with a copied context and a cancel event (the second half of
  \<open>bridge.py\<close>). Exceptions that cross a bridge lose koil's own frames (\<open>tracebacks.py\<close>).
  Decorators, compositions of models and Qt wrappers sit on top of the bridges
  (\<open>decorators.py\<close>, \<open>composition/base.py\<close>, \<open>qt.py\<close>).

  \<^bold>\<open>The theories\<close>, each importing the one before it:
  \<^item> \<open>Koil_Prelude\<close>: values, strings, times; the locales on runs of step functions
    (\<open>step_invariant\<close>, \<open>step_constant\<close>, \<open>guarded_invariant\<close>) that the state machines interpret.
  \<^item> \<open>Koil_Errors\<close> (\<open>errors.py\<close>): classes, \<open>except\<close> clauses, exception values with tracebacks.
  \<^item> \<open>Koil_Context\<close> (\<open>context.py\<close>): contexts and their laws as a locale, the record \<open>rt\<close> of all
    shared objects, the thread-safe event, \<open>check_cancelled\<close>; a set cancel event is seen.
  \<^item> \<open>Koil_Tracebacks\<close> (\<open>tracebacks.py\<close>): the worklist of \<open>prune_traceback\<close> over a heap of exception
    objects that may be chained in cycles, its specification, and its refinement of a
    recursive function on exception values, which the bridges use.
  \<^item> \<open>Koil_Loop\<close> (\<open>loop.py\<close>): \<open>Koil\<close> with all its methods, the shutdown of the loop, the lifecycle
    invariant over all sequences of entering and leaving.
  \<^item> \<open>Koil_Race\<close> (\<open>utils.py\<close>): the task \<open>passed_with_context\<close> of both submit functions as a state
    machine; how it can end, that deadlines are enforced and cancellation completes.
  \<^item> \<open>Koil_Future\<close> (\<open>utils.py\<close>): \<open>KoilFuture\<close>, submission, closing async generators. The locale
    \<open>world_invariant\<close> carries what every event keeps through everything that waits.
  \<^item> \<open>Koil_Bridge\<close> (\<open>bridge.py\<close>): guards, \<open>sleep\<close>, \<open>unkoil\<close>, \<open>unkoil_task\<close>, \<open>unkoil_gen\<close>.
  \<^item> \<open>Koil_Threaded\<close> (\<open>bridge.py\<close>): \<open>run_threaded\<close>, \<open>iterate_threaded\<close> and the bridged variants.
  \<^item> \<open>Koil_Decorators\<close>, \<open>Koil_Composition\<close>, \<open>Koil_Qt\<close>: the files of these names.
  \<^item> \<open>Koil_Compat\<close>: the deprecated modules \<open>helpers.py\<close>, \<open>koil.py\<close> and \<open>vars.py\<close>, one locale for
    the three, and \<open>contrib/pytest_qt.py\<close>.
  \<^item> this theory: a block around a bridge call from entering to leaving, and that every operation
    keeps contexts well-formed.

  \<^bold>\<open>State and operations.\<close> An object with identity (koil, loop, thread, event, future) is a number
  and the record \<open>rt\<close>, extended to \<open>world\<close> in \<open>Koil_Future\<close>, maps it to its attributes. The record
  \<open>caller\<close> is what belongs to a frame: its context and the loop that runs it. A method takes
  and returns both. What may raise returns \<open>exn + 'a\<close>; what may never return gives an \<open>option\<close>.

  \<^bold>\<open>Concurrency.\<close> A call that blocks takes a list of events, what the other threads, the loop and
  the user do while it waits (\<open>wevent\<close>): the clock advances, the loop turns, a task takes a step,
  callbacks are posted, the loop dies, Ctrl+C is pressed. A theorem that holds for all lists
  holds for all interleavings. When the list is used up a wait runs into its deadline. A
  generator is its suspended state, with one operation for each way to resume it.

  \<^bold>\<open>Loops.\<close> The loops of \<open>KoilFuture.result\<close> and \<open>sleep\<close> poll until something happens, which may be
  never: they are partial functions into options, and that they return is proved where a
  timeout makes it so. The worklist of \<open>prune_traceback\<close> terminates because the set of seen
  objects grows. There is no fuel anywhere.

  \<^bold>\<open>Parameters.\<close> Coroutines, worker functions, synchronous generators, slots and the children of a
  composition are arguments that say what they do and when; so are the time a loop's thread takes
  to end and what emitting a Qt signal raises. asyncio, \<open>concurrent.futures\<close> and \<open>contextvars\<close> are
  modelled as far as koil uses them, as of Python 3.12.

  \<^bold>\<open>Conventions.\<close> Times are rational numbers in seconds. Traceback entries carry module, function
  and line; the frames of asyncio are left out where koil's pruning does not look at them.
  Messages are cut after the first sentence and without the numbers in them. Ctrl+C is
  delivered only where \<open>result()\<close> waits. The implicit \<open>__context__\<close> of an exception raised in a
  handler is left out unless the code sets it with \<open>from\<close>.

  \<^bold>\<open>Not modelled.\<close> \<open>protocols.py\<close>, \<open>types.py\<close>, the typing overloads and the \<open>__init__.py\<close> files have
  no behaviour. Logging and warnings have no effect here. What a Qt object, pydantic or
  pytest-qt does beyond the parameters above belongs to those libraries.
\<close>

section \<open>A block around a bridge call\<close>

lemma entered_plain:
  assumes "ambient_koil c = None" and "c_running c = None" and "ambient_event c = None" and "\<not> w_sigint w"
    and "koil_enter k c w = (r, c1, w1)"
  shows "plain_call (Callable kind q n s) (rt_nloops w) c1 w1 \<and> w_nraces w1 = w_nraces w \<and> owns k (rt_nloops w) w1 \<and>
    k_cancel_timeout (rt_koils w1 k) = k_cancel_timeout (rt_koils w k) \<and> r = Inr k \<and>
    c1 = set_var global_koil_loop (PyLoop (rt_nloops w)) (set_var global_koil (PyKoil k) c)"
proof -
  let ?s = "snd (get_threaded_loop (koil_thread_name (rt_koils w k)) (k_uvify (rt_koils w k)) w)"
  have "w_sigint ?s = w_sigint w" "w_nraces ?s = w_nraces w" by (simp_all add: get_threaded_loop_def Let_def)
  with assms koil_enter_starts [of c w k] show ?thesis
    by (auto simp: plain_call_def get_koiled_loop_Inr owns_def upd_koil_def)
qed

text \<open>
  C1: a whole \<open>with Koil():\<close> block around one \<open>unkoil\<close> call in plain synchronous code, when the
  coroutine runs undisturbed and returns \<open>v\<close>. The block is entered, the call gives \<open>v\<close>, and
  the exit returns within the koil's timeouts even if the loop's thread never ends. Afterwards the
  loop is closed or told to stop, nothing is ambient, and every variable of the caller has the
  value the coroutine left it with.
\<close>

theorem with_koil_unkoil:
  assumes "ambient_koil c = None" and "c_running c = None" and "ambient_event c = None" and "\<not> w_sigint w"
    and "ctx_wf (c_vars c)" and "k_cancel_timeout (rt_koils w k) = Some ct"
  shows "\<exists>c1 w1 c2 w2 c3 w3. koil_enter k c w = (Inr k, c1, w1) \<and>
    unkoil (Callable kind q n s) c1 w1 (undisturbed (rt_nloops w) (w_nraces w) (Inr v) sets @ evs) =
      Some (Inr v, c2, w2, evs) \<and>
    koil_exit k d c2 w2 = Some (Inr (), c3, w3) \<and>
    rt_now w3 \<le> rt_now w + max 0 ct + max 0 (join_timeout (rt_koils w k)) \<and>
    released (rt_nloops w) w3 \<and> detached k c3 w3 \<and>
    (\<forall>x. x \<notin> {global_koil, global_koil_loop} \<longrightarrow> ctx_get (c_vars c3) x = ctx_get (set_items sets (c_vars c)) x)"
proof -
  obtain r c1 w1 where ent: "koil_enter k c w = (r, c1, w1)" using prod_cases3 by blast
  note en = entered_plain [OF assms(1-4) ent, of kind q n s]
  have plain: "plain_call (Callable kind q n s) (rt_nloops w) c1 w1" and nr: "w_nraces w1 = w_nraces w" using en by blast+
  have now1: "rt_now w1 = rt_now w" "join_timeout (rt_koils w1 k) = join_timeout (rt_koils w k)"
    using ent assms(1,2) koil_enter_starts [of c w k] by (auto simp: join_timeout_def)
  let ?c2 = "c1\<lparr>c_vars := set_items (set_items sets (set_items (c_vars c1) (c_vars c1))) (c_vars c1)\<rparr>"
  obtain w2 where un: "unkoil (Callable kind q n s) c1 w1 (undisturbed (rt_nloops w) (w_nraces w) (Inr v) sets @ evs) =
      Some (Inr v, ?c2, w2, evs)"
    and w2: "rt_now w2 = rt_now w1" "settings w2 = settings w1" "\<not> l_closed (rt_loops w2 (rt_nloops w))"
    using plain_result_value [OF plain, of "''unkoil''" "(392, 393, 395)" 400 v sets evs]
    unfolding unkoil_def nr by blast
  have own: "owns k (rt_nloops w) w2" using en owns_settings [OF w2(2)] by simp
  have koils: "rt_koils w2 = rt_koils w1" using koils_of_settings [OF w2(2)] .
  have "k_cancel_timeout (rt_koils w2 k) = Some ct" using en assms(6) koils by simp
  then obtain t alive where j: "join_loop_thread (rt_koils w2 k) d = Some (t, alive)"
    "t \<le> max 0 ct + max 0 (join_timeout (rt_koils w2 k))"
    using join_loop_thread_total by blast
  let ?c3 = "set_var global_koil_loop PyNone (set_var global_koil PyNone ?c2)"
  obtain w3 where ex: "koil_exit k d ?c2 w2 = Some (Inr (), ?c3, w3)" "rt_now w3 = rt_now w2 + t"
    using koil_exit_with_loop [of w2 k "rt_nloops w" "rt_nloops w" d t alive ?c2] own w2(3) j
    by (auto simp: owns_def)
  have vars: "ctx_get (c_vars ?c3) x = ctx_get (set_items sets (c_vars c)) x" if x: "x \<notin> {global_koil, global_koil_loop}" for x
  proof -
    have c1: "ctx_wf (c_vars c1)" "ctx_get (c_vars c1) x = ctx_get (c_vars c) x" using en assms(5) x by auto
    have "ctx_get (c_vars ?c2) x = ctx_get (set_items sets (c_vars c1)) x"
      using context_there_and_back [OF c1(1), of sets] by (simp add: ctx_get_def)
    moreover have "\<dots> = ctx_get (set_items sets (c_vars c)) x"
      using c1(2) by (simp add: ctx_get_items split: option.split)
    ultimately show ?thesis using x by auto
  qed
  from koil_exit_releases [OF own ex(1)] have "released (rt_nloops w) w3" "detached k ?c3 w3" by simp_all
  moreover have "rt_now w3 \<le> rt_now w + max 0 ct + max 0 (join_timeout (rt_koils w k))"
    using ex(2) j(2) w2(1) now1 koils by simp
  ultimately show ?thesis using ent en un ex(1) vars by blast
qed

theorem with_koil_unkoil_witness:
  "\<exists>c1 w1 c2 w2 c3 w3. koil_enter 0 init_caller (snd (koil_default init_world)) = (Inr 0, c1, w1) \<and>
     unkoil sample_coro c1 w1 (undisturbed (rt_nloops (snd (koil_default init_world)))
       (w_nraces (snd (koil_default init_world))) (Inr (PyInt 7)) [(UserVar ''x'', PyInt 2)] @ []) =
       Some (Inr (PyInt 7), c2, w2, []) \<and>
     koil_exit 0 None c2 w2 = Some (Inr (), c3, w3) \<and> ctx_get (c_vars c3) (UserVar ''x'') = PyInt 2"
proof -
  let ?w = "snd (koil_default init_world)"
  have w: "\<not> w_sigint ?w" by (simp add: koil_default_def koil_init_def Let_def)
  have c: "ctx_wf (c_vars init_caller)" by (simp add: init_caller_def ctx_wf_def)
  have "ctx_get (set_items [(UserVar ''x'', PyInt 2)] (c_vars init_caller)) (UserVar ''x'') = PyInt 2"
    by (simp add: set_items_def)
  with with_koil_unkoil [OF _ _ _ w c fresh_koil_timeout, of CoroutineFunction "Some ''fetch''" "Some ''fetch''"
      "''<function fetch>''" "PyInt 7" "[(UserVar ''x'', PyInt 2)]" "[]" None]
  show ?thesis unfolding sample_coro_def by fastforce
qed

section \<open>Contexts stay well-formed\<close>











end
